theory Spec2Isabelle
  imports Complex_Main "HOL-Library.Multiset" "HOL-Library.Product_Lexorder"
begin

section \<open>CLARA\_VISIO: photons to light drive\<close>

text \<open>
  A shallow embedding of the numerical core of the repository:
  \<^item> \<^verbatim>\<open>Cells/Retina/cones.py\<close>: \<^verbatim>\<open>cone_sensitivity_nm\<close>;
  \<^item> \<^verbatim>\<open>PrimaryVisualPathway/NeuralRetina/MaculaLutea/input_layer.py\<close>:
    \<^verbatim>\<open>photoreceptor_profile\<close>;
  \<^item> \<^verbatim>\<open>Utils/hexagonal_layer.py\<close>: \<^verbatim>\<open>make_hex_circular_patch\<close>;
  \<^item> \<^verbatim>\<open>Stimulus/Light/photon_driver.py\<close>: \<^verbatim>\<open>_time_bin_index\<close>,
    \<^verbatim>\<open>_gaussian_psf_weights\<close>, \<^verbatim>\<open>build_L_series_for_cones\<close> and
    \<^verbatim>\<open>build_L_series_for_rods\<close>.

  Numbers. A finite Python \<^verbatim>\<open>float\<close> is a real number here, and an entry of a numpy array
  is a real number, an infinity or \<^verbatim>\<open>nan\<close>. The last digit of a sum, product or quotient
  is taken exact. Where binary64 changes what the driver does rather than the last digit
  of a value, the behaviour is written out:
  \<^item> underflow: an \<^verbatim>\<open>exp\<close> at or below half the least positive value, \<open>1 / 2 ^ 1075\<close>, is
    \<open>0.0\<close>, and the source tests for it (\<^verbatim>\<open>if s > 0\<close>, \<^verbatim>\<open>if wS > 0\<close>); a square below the
    least normal number, \<open>1 / 2 ^ 1022\<close>, is rounded, to \<open>0.0\<close> at or below
    \<open>1 / 2 ^ 1075\<close>;
  \<^item> overflow: a sum of squares that rounds to infinity is an infinity, and
    \<^verbatim>\<open>sigma_um**2\<close> on a Python float raises \<^verbatim>\<open>OverflowError\<close> there;
  \<^item> numpy divides by zero without raising: the quotient is \<^verbatim>\<open>nan\<close> or an infinity,
    \<^verbatim>\<open>nan\<close> propagates through sums, and \<^verbatim>\<open>np.clip\<close> keeps it;
  \<^item> the number of time steps is the ceiling of the rounded quotient \<^verbatim>\<open>T / dt\<close>, and the
    window test \<^verbatim>\<open>t >= t0 + T\<close> and the index \<^verbatim>\<open>(t - t0) // dt\<close> round the sum and the
    difference: \<open>b64_round\<close> is rounding to nearest, ties to even.

  Exceptions are values of \<open>py_error\<close>; a function that can raise returns
  \<open>py_error + 'a\<close>. A numpy array of shape \<open>(N,)\<close> is a list, one of shape \<open>(n, N)\<close> a
  list of \<open>n\<close> rows, an array of positions of shape \<open>(N, 2)\<close> a list of pairs, a
  dictionary a map. A leading underscore of a Python name is dropped.
\<close>

subsection \<open>Exceptions and numpy floats\<close>

datatype py_error =
  ZeroDivisionError | ValueError | KeyError | IndexError | AttributeError | NameError
  | OverflowError

text \<open>An entry of a float array: a number, an infinity or \<^verbatim>\<open>nan\<close>.\<close>

datatype np_float = Fin real | PInf | NInf | NaN

text \<open>\<^verbatim>\<open>a / d\<close> on float64 entries, the divisor \<open>d\<close> a finite scalar: a zero divisor gives
  \<^verbatim>\<open>nan\<close> for \<^verbatim>\<open>0 / 0\<close> and a signed infinity otherwise (a warning, no exception).\<close>

fun np_divide :: "np_float \<Rightarrow> real \<Rightarrow> np_float" where
  "np_divide (Fin a) d =
     (if d \<noteq> 0 then Fin (a / d)
      else if a > 0 then PInf
      else if a < 0 then NInf
      else NaN)"
| "np_divide PInf d = (if d < 0 then NInf else PInf)"
| "np_divide NInf d = (if d < 0 then PInf else NInf)"
| "np_divide NaN d = NaN"

text \<open>\<^verbatim>\<open>a + b\<close> on float64 entries: \<^verbatim>\<open>nan\<close> propagates, and the sum of the two infinities is
  \<^verbatim>\<open>nan\<close>.\<close>

fun np_add :: "np_float \<Rightarrow> np_float \<Rightarrow> np_float" where
  "np_add (Fin a) (Fin b) = Fin (a + b)"
| "np_add (Fin a) PInf = PInf"
| "np_add (Fin a) NInf = NInf"
| "np_add PInf (Fin b) = PInf"
| "np_add PInf PInf = PInf"
| "np_add PInf NInf = NaN"
| "np_add NInf (Fin b) = NInf"
| "np_add NInf PInf = NaN"
| "np_add NInf NInf = NInf"
| "np_add NaN b = NaN"
| "np_add a NaN = NaN"

text \<open>\<^verbatim>\<open>c * a\<close>, the scalar \<open>c\<close> finite: zero times an infinity is \<^verbatim>\<open>nan\<close>.\<close>

fun np_scale :: "real \<Rightarrow> np_float \<Rightarrow> np_float" where
  "np_scale c (Fin a) = Fin (c * a)"
| "np_scale c PInf = (if c > 0 then PInf else if c < 0 then NInf else NaN)"
| "np_scale c NInf = (if c > 0 then NInf else if c < 0 then PInf else NaN)"
| "np_scale c NaN = NaN"

text \<open>\<^verbatim>\<open>np.clip(a, lo, hi)\<close> is \<^verbatim>\<open>minimum(maximum(a, lo), hi)\<close>; \<^verbatim>\<open>nan\<close> propagates.\<close>

fun np_clip :: "real \<Rightarrow> real \<Rightarrow> np_float \<Rightarrow> np_float" where
  "np_clip lo hi (Fin a) = Fin (min (max a lo) hi)"
| "np_clip lo hi PInf = Fin hi"
| "np_clip lo hi NInf = Fin (min lo hi)"
| "np_clip lo hi NaN = NaN"

text \<open>The property of an output entry that the light drive is meant to have.\<close>

fun in_unit_interval :: "np_float \<Rightarrow> bool" where
  "in_unit_interval (Fin a) = (0 \<le> a \<and> a \<le> 1)"
| "in_unit_interval PInf = False"
| "in_unit_interval NInf = False"
| "in_unit_interval NaN = False"

text \<open>The least positive binary64 value is \<open>1 / 2 ^ 1074\<close>; a result at or below half of
  it rounds to \<open>0.0\<close>. The greatest is \<open>2 ^ 1024 - 2 ^ 971\<close>; a result that lies half a
  unit above it, or higher, rounds to an infinity.\<close>

definition underflow_bound :: real where
  "underflow_bound = 1 / 2 ^ 1075"

definition overflow_bound :: real where
  "overflow_bound = 2 ^ 1024 - 2 ^ 970"

text \<open>\<^verbatim>\<open>exp\<close> on a binary64 number. Above the underflow the value is taken exact.\<close>

definition np_exp :: "real \<Rightarrow> real" where
  "np_exp a = (if exp a < underflow_bound then 0 else exp a)"

text \<open>\<^verbatim>\<open>np.exp\<close> on an entry of an array.\<close>

fun np_exp_entry :: "np_float \<Rightarrow> np_float" where
  "np_exp_entry (Fin a) = (if overflow_bound \<le> exp a then PInf else Fin (np_exp a))"
| "np_exp_entry PInf = PInf"
| "np_exp_entry NInf = Fin 0"
| "np_exp_entry NaN = NaN"

text \<open>\<^verbatim>\<open>a.sum()\<close> and \<^verbatim>\<open>s > 0\<close>; a comparison with \<^verbatim>\<open>nan\<close> is false.\<close>

definition np_sum :: "np_float list \<Rightarrow> np_float" where
  "np_sum w = foldl np_add (Fin 0) w"

fun np_positive :: "np_float \<Rightarrow> bool" where
  "np_positive (Fin a) = (a > 0)"
| "np_positive PInf = True"
| "np_positive NInf = False"
| "np_positive NaN = False"

text \<open>\<^verbatim>\<open>w /= s\<close>, an entry \<open>a\<close> of \<open>w\<close> divided by the scalar \<open>s\<close>.\<close>

fun np_divide_by :: "np_float \<Rightarrow> np_float \<Rightarrow> np_float" where
  "np_divide_by (Fin s) a = np_divide a s"
| "np_divide_by PInf (Fin a) = Fin 0"
| "np_divide_by NInf (Fin a) = Fin 0"
| "np_divide_by s a = NaN"

subsection \<open>Rounding to binary64\<close>

text \<open>Rounding to the nearest integer, ties to the even one.\<close>

definition round_half_even :: "real \<Rightarrow> int" where
  "round_half_even a =
     (let f = \<lfloor>a\<rfloor>; d = a - of_int f
      in if d < 1 / 2 then f
         else if 1 / 2 < d then f + 1
         else if even f then f
         else f + 1)"

text \<open>Rounding of a real number to binary64, to nearest and ties to even: with
  \<open>2 powr e \<le> \<bar>a\<bar> < 2 powr (e + 1)\<close> the 53-bit significand counts units of
  \<open>2 powr (e - 52)\<close>, and below \<open>2 powr -1022\<close> the unit stays \<open>2 powr -1074\<close>. A result of
  \<open>2 ^ 1024\<close> or more stands for an infinity.\<close>

definition b64_round :: "real \<Rightarrow> real" where
  "b64_round a =
     (if a = 0 then 0
      else
        let e = max \<lfloor>log 2 \<bar>a\<bar>\<rfloor> (- 1022);
            ulp = 2 powr (of_int e - 52)
        in of_int (round_half_even (a / ulp)) * ulp)"

text \<open>Below the least normal number, \<open>1 / 2 ^ 1022\<close>, binary64 keeps fewer digits, down to
  none: there a result is rounded, to a multiple of \<open>1 / 2 ^ 1074\<close>, and at or below the
  underflow bound it is \<open>0.0\<close>. Above, its last digit is taken exact.\<close>

definition min_normal :: real where
  "min_normal = 1 / 2 ^ 1022"

definition gradual_underflow :: "real \<Rightarrow> real" where
  "gradual_underflow x = (if \<bar>x\<bar> < min_normal then b64_round x else x)"

text \<open>\<^verbatim>\<open>d * d\<close> on an entry, before any overflow.\<close>

definition np_square :: "real \<Rightarrow> real" where
  "np_square d = gradual_underflow (d * d)"

text \<open>\<^verbatim>\<open>dx*dx + dy*dy\<close> on entries: an infinity when it overflows.\<close>

definition sum_of_squares :: "real \<Rightarrow> real \<Rightarrow> np_float" where
  "sum_of_squares dx dy =
     (if overflow_bound \<le> np_square dx + np_square dy then PInf
      else Fin (np_square dx + np_square dy))"

text \<open>\<^verbatim>\<open>x ** 2\<close> on a Python float: \<^verbatim>\<open>OverflowError\<close> when the square rounds to an infinity.\<close>

definition py_square :: "real \<Rightarrow> py_error + real" where
  "py_square x =
     (if overflow_bound \<le> x * x then Inl OverflowError
      else Inr (gradual_underflow (x * x)))"

subsection \<open>cones.py: spectral sensitivity\<close>

text \<open>\<^verbatim>\<open>str.upper()\<close> on ASCII text.\<close>

definition upper_char :: "char \<Rightarrow> char" where
  "upper_char c =
     (case map_of (zip ''abcdefghijklmnopqrstuvwxyz'' ''ABCDEFGHIJKLMNOPQRSTUVWXYZ'') c of
        None \<Rightarrow> c
      | Some C \<Rightarrow> C)"

definition upper :: "string \<Rightarrow> string" where
  "upper s = map upper_char s"

definition mu_table :: "string \<rightharpoonup> real" where
  "mu_table = [''L'' \<mapsto> 560, ''M'' \<mapsto> 530, ''S'' \<mapsto> 420]"

definition sigma_table :: "string \<rightharpoonup> real" where
  "sigma_table = [''L'' \<mapsto> 40, ''M'' \<mapsto> 40, ''S'' \<mapsto> 35]"

text \<open>\<^verbatim>\<open>d.get(key, default)\<close>.\<close>

definition dict_get :: "('k \<rightharpoonup> 'v) \<Rightarrow> 'k \<Rightarrow> 'v \<Rightarrow> 'v" where
  "dict_get d key dflt = (case d key of None \<Rightarrow> dflt | Some v \<Rightarrow> v)"

definition cone_sensitivity_nm :: "real \<Rightarrow> string \<Rightarrow> real" where
  "cone_sensitivity_nm lambda_nm cone_type =
     (let cone_type = upper cone_type;
          mu = dict_get mu_table cone_type 560;
          sigma = dict_get sigma_table cone_type 40;
          x = (lambda_nm - mu) / sigma
      in np_exp (- 0.5 * x * x))"

subsection \<open>input\_layer.py: receptor profile\<close>

record cone_types =
  type_L :: real
  type_M :: real
  type_S :: real

record profile =
  cone :: real
  rod :: real
  cone_types :: cone_types

text \<open>The band table: cone density, rod density and the ratios of L, M and S.\<close>

definition band :: "real \<Rightarrow> int \<times> int \<times> real \<times> real \<times> real" where
  "band ecc_um =
     (if ecc_um < 100 then (200000, 0, 0.50, 0.50, 0.00)
      else if ecc_um < 350 then (180000, 0, 0.48, 0.48, 0.04)
      else if ecc_um < 1500 then (100000, 20000, 0.50, 0.45, 0.05)
      else if ecc_um < 2750 then (40000, 100000, 0.50, 0.43, 0.07)
      else if ecc_um < 5500 then (15000, 150000, 0.50, 0.42, 0.08)
      else (5000, 120000, 0.48, 0.44, 0.08))"

definition photoreceptor_profile :: "real \<Rightarrow> profile" where
  "photoreceptor_profile ecc_um =
     (case band ecc_um of (cone_density, rod_density, L, M, S) \<Rightarrow>
        let total = cone_density + rod_density in
        if total = 0 then
          \<lparr>cone = 0, rod = 0, cone_types = \<lparr>type_L = 0, type_M = 0, type_S = 0\<rparr>\<rparr>
        else
          let p_cone = real_of_int cone_density / real_of_int total;
              p_rod = real_of_int rod_density / real_of_int total;
              s = max (1 / 10 ^ 12) (L + M + S)
          in \<lparr>cone = p_cone, rod = p_rod,
              cone_types = \<lparr>type_L = p_cone * (L / s), type_M = p_cone * (M / s),
                             type_S = p_cone * (S / s)\<rparr>\<rparr>)"

subsection \<open>photon.py and photon\_driver.py\<close>

text \<open>The fields \<^verbatim>\<open>x\<close>, \<^verbatim>\<open>y\<close> and \<^verbatim>\<open>t\<close> of a photon are optional; \<open>None\<close> is Python's
  \<^verbatim>\<open>None\<close>. The selectors carry the prefix \<open>ph_\<close>.\<close>

datatype photon =
  Photon (ph_lambda_nm: real) (ph_x: "real option") (ph_y: "real option") (ph_t: "real option")

type_synonym positions = "(real \<times> real) list"
type_synonym array2 = "np_float list list"

text \<open>\<^verbatim>\<open>_time_bin_index\<close> in exact arithmetic, for comparison.\<close>

definition time_bin_index :: "real option \<Rightarrow> real \<Rightarrow> real \<Rightarrow> real \<Rightarrow> py_error + int option" where
  "time_bin_index t t0 dt T =
     (case t of
        None \<Rightarrow> Inr None
      | Some t \<Rightarrow>
          if t < t0 \<or> t \<ge> t0 + T then Inr None
          else if dt = 0 then Inl ZeroDivisionError
          else Inr (Some \<lfloor>(t - t0) / dt\<rfloor>))"

text \<open>\<^verbatim>\<open>_time_bin_index\<close> on binary64 arguments, with the rounding of the sum \<^verbatim>\<open>t0 + T\<close> and
  of the difference \<^verbatim>\<open>t - t0\<close> written out. Python's \<^verbatim>\<open>//\<close> on floats is the floor of the
  exact quotient of its two operands.\<close>

definition time_bin_index_b64 ::
  "real option \<Rightarrow> real \<Rightarrow> real \<Rightarrow> real \<Rightarrow> py_error + int option" where
  "time_bin_index_b64 t t0 dt T =
     (case t of
        None \<Rightarrow> Inr None
      | Some t \<Rightarrow>
          if t < t0 \<or> t \<ge> b64_round (t0 + T) then Inr None
          else if dt = 0 then Inl ZeroDivisionError
          else Inr (Some \<lfloor>b64_round (t - t0) / dt\<rfloor>))"

text \<open>\<^verbatim>\<open>n_steps = int(np.ceil(T / dt))\<close> on binary64 arguments.\<close>

definition n_steps_b64 :: "real \<Rightarrow> real \<Rightarrow> int" where
  "n_steps_b64 T dt = \<lceil>b64_round (T / dt)\<rceil>"

text \<open>\<^verbatim>\<open>np.argmin\<close>: the first index of the least entry; an empty array raises. Infinite
  entries are greater than every number.\<close>

fun np_less_eq :: "np_float \<Rightarrow> np_float \<Rightarrow> bool" where
  "np_less_eq (Fin a) (Fin b) = (a \<le> b)"
| "np_less_eq (Fin a) PInf = True"
| "np_less_eq PInf PInf = True"
| "np_less_eq NInf b = (b \<noteq> NaN)"
| "np_less_eq a b = False"

fun argmin :: "np_float list \<Rightarrow> nat" where
  "argmin [] = 0"
| "argmin [v] = 0"
| "argmin (v # w # ws) =
     (let j = argmin (w # ws) in if np_less_eq v ((w # ws) ! j) then 0 else Suc j)"

definition np_argmin :: "np_float list \<Rightarrow> py_error + nat" where
  "np_argmin d2 = (if d2 = [] then Inl ValueError else Inr (argmin d2))"

text \<open>\<open>rx_um\<close> and \<open>ry_um\<close> are the two columns of one array of positions, so they have the
  same length.\<close>

definition gaussian_psf_weights ::
  "real \<Rightarrow> real \<Rightarrow> real list \<Rightarrow> real list \<Rightarrow> real \<Rightarrow> py_error + np_float list" where
  "gaussian_psf_weights px_um py_um rx_um ry_um sigma_um =
     (if sigma_um \<le> 0 then
        (let d2 = map2 (\<lambda>rx ry. sum_of_squares (rx - px_um) (ry - py_um)) rx_um ry_um in
         case np_argmin d2 of
           Inl e \<Rightarrow> Inl e
         | Inr idx \<Rightarrow> Inr ((replicate (length rx_um) (Fin 0))[idx := Fin 1]))
      else
        (let dx = map (\<lambda>rx. rx - px_um) rx_um;
             dy = map (\<lambda>ry. ry - py_um) ry_um;
             r2 = map2 sum_of_squares dx dy
         in case py_square sigma_um of
              Inl e \<Rightarrow> Inl e
            | Inr sigma2 \<Rightarrow>
                let w = map (\<lambda>r. np_exp_entry (np_divide (np_scale (- 0.5) r) sigma2)) r2;
                    s = np_sum w
                in if np_positive s then Inr (map (np_divide_by s) w) else Inr w))"

text \<open>\<^verbatim>\<open>N = 0 if pos is None else (0 if pos.size == 0 else pos.shape[0])\<close>.\<close>

definition receptor_count :: "positions option \<Rightarrow> nat" where
  "receptor_count pos =
     (case pos of None \<Rightarrow> 0 | Some ps \<Rightarrow> if ps = [] then 0 else length ps)"

definition zeros :: "nat \<Rightarrow> nat \<Rightarrow> array2" where
  "zeros n N = replicate n (replicate N (Fin 0))"

text \<open>\<^verbatim>\<open>.size\<close> of a two-dimensional array.\<close>

definition array_size :: "'a list list \<Rightarrow> nat" where
  "array_size A = sum_list (map length A)"

text \<open>An integer index into an axis of length \<open>n\<close>: a negative index counts from the end,
  anything else out of range raises.\<close>

definition np_index :: "nat \<Rightarrow> int \<Rightarrow> py_error + nat" where
  "np_index n k =
     (if 0 \<le> k \<and> k < int n then Inr (nat k)
      else if - int n \<le> k \<and> k < 0 then Inr (nat (int n + k))
      else Inl IndexError)"

text \<open>\<^verbatim>\<open>A[k] += v\<close>.\<close>

definition row_add :: "array2 \<Rightarrow> int \<Rightarrow> np_float list \<Rightarrow> py_error + array2" where
  "row_add A k v =
     (case np_index (length A) k of
        Inl e \<Rightarrow> Inl e
      | Inr i \<Rightarrow> Inr (A[i := map2 np_add (A ! i) v]))"

text \<open>\<^verbatim>\<open>L_series[tkey][k] += v\<close>.\<close>

definition dict_row_add ::
  "(string \<rightharpoonup> array2) \<Rightarrow> string \<Rightarrow> int \<Rightarrow> np_float list \<Rightarrow> py_error + (string \<rightharpoonup> array2)" where
  "dict_row_add L_series tkey k v =
     (case L_series tkey of
        None \<Rightarrow> Inl KeyError
      | Some A \<Rightarrow>
          (case row_add A k v of
             Inl e \<Rightarrow> Inl e
           | Inr A' \<Rightarrow> Inr (L_series(tkey \<mapsto> A'))))"

text \<open>One of the three blocks \<^verbatim>\<open>if X_pos.size: ...\<close> of the loop body, for the cone type
  \<open>tkey\<close> with spectral weight \<open>w\<close>. \<^verbatim>\<open>X_pos\<close> is
  \<^verbatim>\<open>cone_positions.get(tkey, np.zeros((0, 2)))\<close>; when the dictionary holds \<^verbatim>\<open>None\<close>,
  \<^verbatim>\<open>X_pos.size\<close> raises.\<close>

definition cone_block ::
  "(string \<rightharpoonup> positions option) \<Rightarrow> real \<Rightarrow> string \<Rightarrow> real \<Rightarrow> real \<Rightarrow> real \<Rightarrow> int \<Rightarrow>
   (string \<rightharpoonup> array2) \<Rightarrow> py_error + (string \<rightharpoonup> array2)" where
  "cone_block cone_positions sigma_um tkey w px py k L_series =
     (case dict_get cone_positions tkey (Some []) of
        None \<Rightarrow> Inl AttributeError
      | Some X_pos \<Rightarrow>
          if X_pos = [] then Inr L_series
          else
            (case gaussian_psf_weights px py (map fst X_pos) (map snd X_pos) sigma_um of
               Inl e \<Rightarrow> Inl e
             | Inr w_sp \<Rightarrow>
                 if w > 0 then dict_row_add L_series tkey k (map (np_scale w) w_sp)
                 else Inr L_series))"

text \<open>
  The names that the module \<^verbatim>\<open>photon_driver\<close> binds: its imports and its four functions.
  The module imports \<^verbatim>\<open>cones\<close> (\<^verbatim>\<open>from Cells.Retina import cones\<close>) and not the function
  \<^verbatim>\<open>cone_sensitivity_nm\<close> of that module, and no builtin has that name. A name that is
  not bound raises \<^verbatim>\<open>NameError\<close> when it is evaluated; \<open>global_name name v\<close> is the
  evaluation of \<open>name\<close>, with \<open>v\<close> the value the name would have.
\<close>

definition module_names :: "string list" where
  "module_names =
     [''annotations'', ''List'', ''Dict'', ''Optional'', ''Tuple'', ''np'', ''Photon'', ''os'',
      ''sys'', ''cones'', ''_time_bin_index'', ''_gaussian_psf_weights'',
      ''build_L_series_for_cones'', ''build_L_series_for_rods'']"

definition global_name :: "string \<Rightarrow> 'a \<Rightarrow> py_error + 'a" where
  "global_name name v = (if name \<in> set module_names then Inr v else Inl NameError)"

text \<open>The body of \<^verbatim>\<open>for ph in photons\<close> in \<^verbatim>\<open>build_L_series_for_cones\<close>. The call
  \<^verbatim>\<open>cone_sensitivity_nm(ph.lambda_nm, 'S')\<close> evaluates the name first.\<close>

definition cone_step ::
  "(string \<rightharpoonup> positions option) \<Rightarrow> real \<Rightarrow> real \<Rightarrow> real \<Rightarrow> real \<Rightarrow> photon \<Rightarrow>
   (string \<rightharpoonup> array2) \<Rightarrow> py_error + (string \<rightharpoonup> array2)" where
  "cone_step cone_positions T dt t0 sigma_um ph L_series =
     (case time_bin_index_b64 (Some (case ph_t ph of None \<Rightarrow> t0 | Some t \<Rightarrow> t)) t0 dt T of
        Inl e \<Rightarrow> Inl e
      | Inr None \<Rightarrow> Inr L_series
      | Inr (Some k) \<Rightarrow>
          (case ph_x ph of
             None \<Rightarrow> Inr L_series
           | Some px \<Rightarrow>
               (case ph_y ph of
                  None \<Rightarrow> Inr L_series
                | Some py \<Rightarrow>
                    (case global_name ''cone_sensitivity_nm'' cone_sensitivity_nm of
                       Inl e \<Rightarrow> Inl e
                     | Inr sensitivity \<Rightarrow>
                         let wS = sensitivity (ph_lambda_nm ph) ''S'';
                             wM = sensitivity (ph_lambda_nm ph) ''M'';
                             wL = sensitivity (ph_lambda_nm ph) ''L''
                         in
                           (case cone_block cone_positions sigma_um ''S'' wS px py k L_series of
                              Inl e \<Rightarrow> Inl e
                            | Inr L1 \<Rightarrow>
                                (case cone_block cone_positions sigma_um ''M'' wM px py k L1 of
                                   Inl e \<Rightarrow> Inl e
                                 | Inr L2 \<Rightarrow>
                                     cone_block cone_positions sigma_um ''L'' wL px py k L2))))))"

text \<open>A loop over a list whose body may raise: the first exception ends it.\<close>

fun for_each :: "('a \<Rightarrow> 's \<Rightarrow> py_error + 's) \<Rightarrow> 'a list \<Rightarrow> 's \<Rightarrow> py_error + 's" where
  "for_each body [] s = Inr s"
| "for_each body (a # as) s =
     (case body a s of Inl e \<Rightarrow> Inl e | Inr s' \<Rightarrow> for_each body as s')"

text \<open>The body of \<^verbatim>\<open>for tkey in ['S', 'M', 'L']\<close>: \<open>d\<close> is \<^verbatim>\<open>photons_per_L1 + eps\<close>.\<close>

definition normalize_key ::
  "real \<Rightarrow> string \<Rightarrow> (string \<rightharpoonup> array2) \<Rightarrow> py_error + (string \<rightharpoonup> array2)" where
  "normalize_key d tkey L_series =
     (case L_series tkey of
        None \<Rightarrow> Inl KeyError
      | Some A \<Rightarrow>
          if array_size A \<noteq> 0 then
            Inr (L_series(tkey \<mapsto> map (map (\<lambda>a. np_clip 0 1 (np_divide a d))) A))
          else Inr L_series)"

text \<open>The literal \<^verbatim>\<open>1e-12\<close>: the binary64 number next to \<open>1 / 10 ^ 12\<close>.\<close>

definition eps :: real where
  "eps = b64_round (1 / 10 ^ 12)"

text \<open>\<^verbatim>\<open>T / dt\<close> on Python floats raises for \<open>dt = 0\<close>; a quotient that overflows is an
  infinity, and \<^verbatim>\<open>int\<close> of it raises \<^verbatim>\<open>OverflowError\<close>. \<^verbatim>\<open>np.zeros\<close> raises
  \<^verbatim>\<open>ValueError\<close> for a negative number of rows.\<close>

definition build_L_series_for_cones ::
  "photon list \<Rightarrow> (string \<rightharpoonup> positions option) \<Rightarrow> real \<Rightarrow> real \<Rightarrow> real \<Rightarrow> real \<Rightarrow> real \<Rightarrow>
   py_error + (string \<rightharpoonup> array2)" where
  "build_L_series_for_cones photons cone_positions T dt t0 sigma_um photons_per_L1 =
     (if dt = 0 then Inl ZeroDivisionError
      else if overflow_bound \<le> \<bar>T / dt\<bar> then Inl OverflowError
      else
        let n_steps = n_steps_b64 T dt in
        if n_steps < 0 \<and> cone_positions \<noteq> Map.empty then Inl ValueError
        else
          let L_series = (\<lambda>tkey. case cone_positions tkey of
                            None \<Rightarrow> None
                          | Some pos \<Rightarrow> Some (zeros (nat n_steps) (receptor_count pos)))
          in
            (case for_each (cone_step cone_positions T dt t0 sigma_um) photons L_series of
               Inl e \<Rightarrow> Inl e
             | Inr L_series \<Rightarrow>
                 for_each (normalize_key (photons_per_L1 + eps)) [''S'', ''M'', ''L'']
                   L_series))"

text \<open>The body of \<^verbatim>\<open>for ph in photons\<close> in \<^verbatim>\<open>build_L_series_for_rods\<close>.\<close>

definition rod_step ::
  "real list \<Rightarrow> real list \<Rightarrow> real \<Rightarrow> real \<Rightarrow> real \<Rightarrow> real \<Rightarrow> photon \<Rightarrow> array2 \<Rightarrow>
   py_error + array2" where
  "rod_step rx ry T dt t0 sigma_um ph Lr =
     (case time_bin_index_b64 (Some (case ph_t ph of None \<Rightarrow> t0 | Some t \<Rightarrow> t)) t0 dt T of
        Inl e \<Rightarrow> Inl e
      | Inr None \<Rightarrow> Inr Lr
      | Inr (Some k) \<Rightarrow>
          (case ph_x ph of
             None \<Rightarrow> Inr Lr
           | Some px \<Rightarrow>
               (case ph_y ph of
                  None \<Rightarrow> Inr Lr
                | Some py \<Rightarrow>
                    (case gaussian_psf_weights px py rx ry sigma_um of
                       Inl e \<Rightarrow> Inl e
                     | Inr w_sp \<Rightarrow> row_add Lr k w_sp))))"

definition build_L_series_for_rods ::
  "photon list \<Rightarrow> positions option \<Rightarrow> real \<Rightarrow> real \<Rightarrow> real \<Rightarrow> real \<Rightarrow> real \<Rightarrow>
   py_error + array2" where
  "build_L_series_for_rods photons rod_positions T dt t0 sigma_um photons_per_L1 =
     (if dt = 0 then Inl ZeroDivisionError
      else if overflow_bound \<le> \<bar>T / dt\<bar> then Inl OverflowError
      else
        let n_steps = n_steps_b64 T dt;
            N = receptor_count rod_positions
        in
          if n_steps < 0 then Inl ValueError
          else
            let Lr = zeros (nat n_steps) N in
            if N = 0 then Inr Lr
            else
              let pos = (case rod_positions of None \<Rightarrow> [] | Some ps \<Rightarrow> ps);
                  rx = map fst pos;
                  ry = map snd pos
              in
                (case for_each (rod_step rx ry T dt t0 sigma_um) photons Lr of
                   Inl e \<Rightarrow> Inl e
                 | Inr Lr \<Rightarrow>
                     Inr (map (map (\<lambda>a. np_clip 0 1 (np_divide a (photons_per_L1 + eps))))
                            Lr)))"

subsection \<open>hexagonal\_layer.py: circular hexagonal patch\<close>

text \<open>The fields of \<^verbatim>\<open>HexPatch\<close> carry the prefix \<open>patch_\<close>.\<close>

record hex_patch =
  patch_radius_um :: real
  patch_pitch_um :: real
  patch_jitter_um :: real
  patch_seed :: "int option"
  patch_center :: "real \<times> real"
  patch_coords :: positions

text \<open>\<^verbatim>\<open>np.arctan2(y, x)\<close>, the polar angle of the point \<open>(x, y)\<close> in \<open>(-pi, pi]\<close>.\<close>

definition arctan2 :: "real \<Rightarrow> real \<Rightarrow> real" where
  "arctan2 y x =
     (if x > 0 then arctan (y / x)
      else if x < 0 then (if y \<ge> 0 then arctan (y / x) + pi else arctan (y / x) - pi)
      else if y > 0 then pi / 2
      else if y < 0 then - pi / 2
      else 0)"

definition mean :: "real list \<Rightarrow> real" where
  "mean vs = sum_list vs / real (length vs)"

text \<open>
  Two calls leave the repository and are parameters of the model:
  \<^item> \<open>create_hex_grid nx ny min_diam\<close> is the list of centres that the package
    \<^verbatim>\<open>hexalattice\<close> returns;
  \<^item> \<open>normal seed scale n\<close> is the array of shape \<open>(n, 2)\<close> that
    \<^verbatim>\<open>np.random.default_rng(seed).normal(0.0, scale, size=(n, 2))\<close> draws.

  Both return one pair per point. The mean of an empty array is \<^verbatim>\<open>nan\<close> in numpy and a
  fixed number here; it is subtracted from the entries of the same empty array, so from
  nothing.

  \<^verbatim>\<open>np.lexsort((r, theta))\<close> sorts by \<open>theta\<close> first and by \<open>r\<close> second, and is stable;
  pairs are ordered lexicographically.
\<close>

definition make_hex_circular_patch ::
  "(int \<Rightarrow> int \<Rightarrow> real \<Rightarrow> positions) \<Rightarrow> (int option \<Rightarrow> real \<Rightarrow> nat \<Rightarrow> positions) \<Rightarrow>
   real \<Rightarrow> real \<Rightarrow> real \<Rightarrow> int option \<Rightarrow> real \<times> real \<Rightarrow> py_error + hex_patch" where
  "make_hex_circular_patch create_hex_grid normal radius_um pitch_um jitter_um seed center =
     (if radius_um \<le> 0 then
        Inr \<lparr>patch_radius_um = radius_um, patch_pitch_um = pitch_um,
             patch_jitter_um = jitter_um, patch_seed = seed, patch_center = center,
             patch_coords = []\<rparr>
      else if pitch_um = 0 then Inl ZeroDivisionError
      else
        let width_um = 2 * radius_um;
            height_um = 2 * radius_um;
            nx = \<lceil>width_um / pitch_um\<rceil> + 2;
            ny = \<lceil>height_um / (pitch_um * sqrt 3 / 2)\<rceil> + 2;
            coords = create_hex_grid nx ny pitch_um;
            mx = mean (map fst coords);
            coords = map (\<lambda>(x, y). (x - mx, y)) coords;
            my = mean (map snd coords);
            coords = map (\<lambda>(x, y). (x, y - my)) coords;
            r2 = radius_um\<^sup>2;
            coords = filter (\<lambda>(x, y). x\<^sup>2 + y\<^sup>2 \<le> r2) coords;
            coords = (if jitter_um > 0
                      then map2 (\<lambda>(x, y) (dx, dy). (x + dx, y + dy)) coords
                             (normal seed jitter_um (length coords))
                      else coords);
            coords = map (\<lambda>(x, y). (x + fst center, y + snd center)) coords;
            coords = sort_key (\<lambda>(x, y). (arctan2 y x, sqrt (x\<^sup>2 + y\<^sup>2))) coords
        in Inr \<lparr>patch_radius_um = radius_um, patch_pitch_um = pitch_um,
                patch_jitter_um = jitter_um, patch_seed = seed, patch_center = center,
                patch_coords = coords\<rparr>)"

subsection \<open>Notions used in the properties\<close>


text \<open>The arrival time that the loops use (\<^verbatim>\<open>ph.t if ph.t is not None else t0\<close>), and the
  photons the specification calls discarded: the arrival time lies outside the window
  from \<open>t0\<close> to \<open>t0 + T\<close>, the end excluded, or a coordinate is missing.\<close>

definition arrival_time :: "real \<Rightarrow> photon \<Rightarrow> real" where
  "arrival_time t0 ph = (case ph_t ph of None \<Rightarrow> t0 | Some t \<Rightarrow> t)"

definition discarded :: "real \<Rightarrow> real \<Rightarrow> photon \<Rightarrow> bool" where
  "discarded T t0 ph \<longleftrightarrow>
     arrival_time t0 ph < t0 \<or> t0 + T \<le> arrival_time t0 ph \<or> ph_x ph = None \<or> ph_y ph = None"

text \<open>The real numbers that binary64 holds: rounding leaves them as they are.\<close>

definition binary64 :: "real \<Rightarrow> bool" where
  "binary64 a \<longleftrightarrow> b64_round a = a"

text \<open>The Gaussian kernel of a photon at \<open>(px, py)\<close> at the receptor \<open>p\<close>, with the squares
  as binary64 holds them, and when the driver holds it as a positive number: the squared
  distance does not overflow and the exponential does not underflow.\<close>

definition kernel :: "real \<Rightarrow> real \<Rightarrow> real \<Rightarrow> real \<times> real \<Rightarrow> real" where
  "kernel px py sigma p =
     exp (- 0.5 * (np_square (fst p - px) + np_square (snd p - py)) /
            gradual_underflow (sigma * sigma))"

definition kernel_positive :: "real \<Rightarrow> real \<Rightarrow> real \<Rightarrow> real \<times> real \<Rightarrow> bool" where
  "kernel_positive px py sigma p \<longleftrightarrow>
     np_square (fst p - px) + np_square (snd p - py) < overflow_bound \<and>
     underflow_bound \<le> kernel px py sigma p"

text \<open>An array, or a row, without \<^verbatim>\<open>nan\<close> and without infinities.\<close>

definition all_numbers :: "np_float list \<Rightarrow> bool" where
  "all_numbers v \<longleftrightarrow> (\<forall>a\<in>set v. \<exists>x. a = Fin x)"

text \<open>What one round of the normalisation loop does to an array.\<close>

definition clip_div :: "real \<Rightarrow> array2 \<Rightarrow> array2" where
  "clip_div d A =
     (if array_size A \<noteq> 0 then map (map (\<lambda>a. np_clip 0 1 (np_divide a d))) A else A)"

text \<open>An input for examples: no S and no M cone, one L cone at the origin, and one more key;
  and the light drive that it gets from photons that are all discarded.\<close>

definition example_cones :: "string \<rightharpoonup> positions option" where
  "example_cones =
     [''S'' \<mapsto> Some [], ''M'' \<mapsto> Some [], ''L'' \<mapsto> Some [(0, 0)], ''X'' \<mapsto> Some [(5, 5)]]"

definition example_drive :: "string \<rightharpoonup> array2" where
  "example_drive =
     [''S'' \<mapsto> [[], []], ''M'' \<mapsto> [[], []],
      ''L'' \<mapsto> [[Fin 0], [Fin 0]], ''X'' \<mapsto> [[Fin 0], [Fin 0]]]"

text \<open>The sort key of a point \<open>p\<close> seen from the point \<open>c\<close>: polar angle first, distance
  second.\<close>

definition polar_key :: "real \<times> real \<Rightarrow> real \<times> real \<Rightarrow> real \<times> real" where
  "polar_key c p =
     (arctan2 (snd p - snd c) (fst p - fst c), sqrt ((fst p - fst c)\<^sup>2 + (snd p - snd c)\<^sup>2))"

text \<open>The layout of the centres that \<^verbatim>\<open>hexalattice\<close> generates, up to a translation (which
  the recentring of \<open>make_hex_circular_patch\<close> removes): \<open>ny\<close> rows of \<open>nx\<close> centres, the
  centres of a row \<open>min_diam\<close> apart, the rows \<open>min_diam * sqrt 3 / 2\<close> apart, and every
  second row shifted by half of \<open>min_diam\<close>. It instantiates the parameter
  \<open>create_hex_grid\<close> in the examples.\<close>

definition hex_centres :: "int \<Rightarrow> int \<Rightarrow> real \<Rightarrow> positions" where
  "hex_centres nx ny min_diam =
     concat (map (\<lambda>j. map (\<lambda>i. ((of_int i + (if odd j then 1 / 2 else 0)) * min_diam,
                                 of_int j * (sqrt 3 / 2) * min_diam))
                          [0..nx - 1])
                 [0..ny - 1])"

text \<open>A generator of noise for the examples; they run without jitter and never call it.\<close>

definition no_noise :: "int option \<Rightarrow> real \<Rightarrow> nat \<Rightarrow> positions" where
  "no_noise seed scale n = replicate n (0, 0)"


section \<open>Properties\<close>

subsection \<open>Underflow of the exponential\<close>

lemma np_exp_underflow: "a < - 1075 \<Longrightarrow> np_exp a = 0"
proof -
  assume a: "a < - 1075"
  have "(2::real) \<le> exp 1"
    using exp_ge_add_one_self[of "1::real"] by simp
  then have "(2::real) ^ 1075 \<le> exp 1 ^ 1075"
    by (intro power_mono) simp_all
  also have "\<dots> = exp (1075::real)"
    by (simp add: exp_of_nat_mult[symmetric])
  finally have pow: "(2::real) ^ 1075 \<le> exp 1075" .
  have "exp a < exp (- 1075 :: real)"
    using a by simp
  also have "\<dots> = inverse (exp 1075)"
    by (simp add: exp_minus)
  also have "\<dots> \<le> inverse (2 ^ 1075)"
    using pow by (intro le_imp_inverse_le) simp_all
  finally have "exp a < underflow_bound"
    by (simp add: inverse_eq_divide underflow_bound_def)
  then show ?thesis
    by (simp add: np_exp_def)
qed

lemma np_exp_nonneg: "0 \<le> np_exp a"
  by (simp add: np_exp_def)

lemma np_exp_le_one: "a \<le> 0 \<Longrightarrow> np_exp a \<le> 1"
  by (simp add: np_exp_def)

lemma underflow_bound_pos: "0 < underflow_bound"
  by (simp add: underflow_bound_def)

lemma underflow_bound_le_one: "underflow_bound \<le> 1"
  by (simp add: underflow_bound_def)

lemma overflow_bound_gt_one: "1 < overflow_bound"
  by (simp add: overflow_bound_def)

lemma np_exp_zero: "np_exp 0 = 1"
  using underflow_bound_le_one by (simp add: np_exp_def not_less)

lemma upper_cases: "upper ''L'' = ''L''" "upper ''M'' = ''M''" "upper ''S'' = ''S''"
  by (simp_all add: upper_def upper_char_def)

subsection \<open>Spectral sensitivity\<close>

text \<open>
  Claim C8, as amended. For every wavelength and every subtype string,
  \<open>cone_sensitivity_nm\<close> is the Gaussian \<open>exp (- 0.5 * ((lam - peak) / bandwidth)\<^sup>2)\<close> as
  binary64 holds it: that value when it is at least \<open>underflow_bound\<close>, and \<open>0\<close> below. The
  peaks are 560, 530 and 420 nm and the bandwidths 40, 40 and 35 nm for L, M and S (the
  subtype is compared after upper-casing), and every other string takes the values of L.
  The result lies in the closed interval from 0 to 1, as the docstring of the function
  says.
\<close>

theorem cone_sensitivity_nm_gaussian:
  "cone_sensitivity_nm lam ct =
     (let c = upper ct;
          peak = (if c = ''L'' then 560 else if c = ''M'' then 530
                  else if c = ''S'' then 420 else 560);
          bandwidth = (if c = ''L'' then 40 else if c = ''M'' then 40
                       else if c = ''S'' then 35 else 40);
          g = exp (- 0.5 * ((lam - peak) / bandwidth)\<^sup>2)
      in if g < underflow_bound then 0 else g)
   \<and> 0 \<le> cone_sensitivity_nm lam ct \<and> cone_sensitivity_nm lam ct \<le> 1"
proof -
  have neg: "- 0.5 * a * a \<le> 0" for a :: real
    using zero_le_square[of a] by simp
  show ?thesis
    by (simp add: cone_sensitivity_nm_def dict_get_def mu_table_def sigma_table_def Let_def
        np_exp_nonneg np_exp_le_one neg) (simp add: np_exp_def power2_eq_square)
qed

text \<open>
  Claim C8 as stated puts the result in the half-open interval that excludes 0. At
  3000 nm the L cone is 61 bandwidths from its peak, the exponent is \<open>-1860.5\<close>, and the
  result is \<open>0\<close>.
\<close>

theorem cone_sensitivity_nm_underflow:
  "cone_sensitivity_nm 3000 ''L'' = 0 \<and> \<not> 0 < cone_sensitivity_nm 3000 ''L''"
  by (simp add: cone_sensitivity_nm_def dict_get_def mu_table_def sigma_table_def
      upper_cases np_exp_underflow)

subsection \<open>Receptor profile\<close>

text \<open>
  Claim C7. For every eccentricity \<open>ecc_um \<ge> 0\<close>, the cone and the rod probability of
  \<open>photoreceptor_profile ecc_um\<close> add up to 1, and the fractions of L, M and S add up to
  the cone probability. (Both equations are exact over the reals.)
\<close>

theorem photoreceptor_profile_normalised:
  "0 \<le> ecc_um \<Longrightarrow>
   cone (photoreceptor_profile ecc_um) + rod (photoreceptor_profile ecc_um) = 1 \<and>
   type_L (cone_types (photoreceptor_profile ecc_um)) +
   type_M (cone_types (photoreceptor_profile ecc_um)) +
   type_S (cone_types (photoreceptor_profile ecc_um)) = cone (photoreceptor_profile ecc_um)"
  by (simp add: photoreceptor_profile_def band_def)

theorem photoreceptor_profile_normalised_witness:
  "(0::real) \<le> 2000 \<and>
   cone (photoreceptor_profile 2000) + rod (photoreceptor_profile 2000) = 1 \<and>
   type_L (cone_types (photoreceptor_profile 2000)) +
   type_M (cone_types (photoreceptor_profile 2000)) +
   type_S (cone_types (photoreceptor_profile 2000)) = cone (photoreceptor_profile 2000) \<and>
   cone (photoreceptor_profile 2000) = 2 / 7"
  using photoreceptor_profile_normalised [of 2000]
  by (simp add: photoreceptor_profile_def band_def)

subsection \<open>Rounding is monotone\<close>

lemma round_half_even_of_int: "round_half_even (of_int n) = n"
  by (simp add: round_half_even_def)

lemma round_half_even_cases:
  "round_half_even x = \<lfloor>x\<rfloor> \<or> round_half_even x = \<lfloor>x\<rfloor> + 1"
  by (simp add: round_half_even_def Let_def)

lemma round_half_even_floor_le: "\<lfloor>x\<rfloor> \<le> round_half_even x"
  using round_half_even_cases[of x] by linarith

lemma round_half_even_le_ceiling: "round_half_even x \<le> \<lceil>x\<rceil>"
proof (cases "x = of_int \<lfloor>x\<rfloor>")
  case True
  then have "round_half_even x = \<lfloor>x\<rfloor>"
    by (metis round_half_even_of_int floor_of_int)
  then show ?thesis
    by (simp add: floor_le_ceiling)
next
  case False
  then have "\<lceil>x\<rceil> = \<lfloor>x\<rfloor> + 1"
    by (simp add: ceiling_altdef)
  then show ?thesis
    using round_half_even_cases[of x] by linarith
qed

lemma round_half_even_mono: "x \<le> y \<Longrightarrow> round_half_even x \<le> round_half_even y"
proof -
  assume xy: "x \<le> y"
  have f: "\<lfloor>x\<rfloor> \<le> \<lfloor>y\<rfloor>"
    using xy by (rule floor_mono)
  show ?thesis
  proof (cases "\<lfloor>x\<rfloor> = \<lfloor>y\<rfloor>")
    case True
    have "x - of_int \<lfloor>x\<rfloor> \<le> y - of_int \<lfloor>y\<rfloor>"
      using xy True by simp
    then show ?thesis
      using True by (auto simp: round_half_even_def Let_def)
  next
    case False
    then have "\<lfloor>x\<rfloor> + 1 \<le> \<lfloor>y\<rfloor>"
      using f by linarith
    then show ?thesis
      using round_half_even_cases[of x] round_half_even_floor_le[of y] by linarith
  qed
qed

lemma round_half_even_minus: "round_half_even (- x) = - round_half_even x"
proof (cases "x = of_int \<lfloor>x\<rfloor>")
  case True
  then obtain n where "x = of_int n" ..
  then show ?thesis
    using round_half_even_of_int[of "- n"] round_half_even_of_int[of n] by simp
next
  case False
  then have fl: "\<lfloor>- x\<rfloor> = - \<lfloor>x\<rfloor> - 1"
    by (metis ceiling_altdef ceiling_def add_diff_cancel minus_diff_eq minus_minus diff_minus_eq_add uminus_add_conv_diff)
  have d: "- x - of_int (- \<lfloor>x\<rfloor> - 1) = 1 - (x - of_int \<lfloor>x\<rfloor>)"
    by simp
  have pos: "0 < x - of_int \<lfloor>x\<rfloor>"
    using False by (metis diff_gt_0_iff_gt less_eq_real_def of_int_floor_le)
  show ?thesis
    unfolding round_half_even_def Let_def fl d using pos
    by (auto simp: even_diff_iff)
qed


lemma b64_round_minus: "b64_round (- a) = - b64_round a"
  by (simp add: b64_round_def Let_def round_half_even_minus)

lemma b64_round_eq:
  assumes "a \<noteq> 0" and "2 powr of_int e \<le> \<bar>a\<bar>" and "\<bar>a\<bar> < 2 powr (of_int e + 1)"
    and "- 1022 \<le> e"
  shows "b64_round a = of_int (round_half_even (a / 2 powr (of_int e - 52))) * 2 powr (of_int e - 52)"
proof -
  have "\<lfloor>log 2 \<bar>a\<bar>\<rfloor> = e"
    using assms by (subst floor_log_eq_powr_iff) simp_all
  then show ?thesis
    using assms(1,4) by (simp add: b64_round_def Let_def max_def)
qed

text \<open>The exponent that \<open>b64_round\<close> uses.\<close>

lemma b64_exponent_upper:
  assumes "0 < a"
  shows "a < 2 powr (of_int (max \<lfloor>log 2 a\<rfloor> (- 1022)) + 1)"
proof -
  have "log 2 a < of_int \<lfloor>log 2 a\<rfloor> + 1"
    by linarith
  also have "\<dots> \<le> of_int (max \<lfloor>log 2 a\<rfloor> (- 1022)) + 1"
    by simp
  finally have "log 2 a < of_int (max \<lfloor>log 2 a\<rfloor> (- 1022)) + 1" .
  then show ?thesis
    using assms by (simp add: log_less_iff)
qed

lemma b64_exponent_lower:
  assumes "0 < a" and "- 1022 \<le> \<lfloor>log 2 a\<rfloor>"
  shows "2 powr of_int (max \<lfloor>log 2 a\<rfloor> (- 1022)) \<le> a"
proof -
  have "of_int \<lfloor>log 2 a\<rfloor> \<le> log 2 a"
    by linarith
  then have "2 powr of_int \<lfloor>log 2 a\<rfloor> \<le> 2 powr log 2 a"
    by simp
  then have "2 powr of_int \<lfloor>log 2 a\<rfloor> \<le> a"
    using assms(1) by simp
  moreover have "max \<lfloor>log 2 a\<rfloor> (- 1022) = \<lfloor>log 2 a\<rfloor>"
    using assms(2) by (rule max_absorb1)
  ultimately show ?thesis
    by (simp only: )
qed

lemma b64_round_unit:
  assumes "a \<noteq> 0"
  shows "b64_round a =
           of_int (round_half_even (a / 2 powr (of_int (max \<lfloor>log 2 \<bar>a\<bar>\<rfloor> (- 1022)) - 52))) *
           2 powr (of_int (max \<lfloor>log 2 \<bar>a\<bar>\<rfloor> (- 1022)) - 52)"
  using assms by (simp only: b64_round_def Let_def if_False)

lemma two_powr_53: "(2::real) powr 53 = of_int (2 ^ 53)"
  using powr_realpow[of "2::real" 53] by simp

lemma two_powr_52: "(2::real) powr 52 = of_int (2 ^ 52)"
  using powr_realpow[of "2::real" 52] by simp

lemma b64_round_upper:
  assumes "0 < a"
  shows "b64_round a \<le> 2 powr (of_int (max \<lfloor>log 2 a\<rfloor> (- 1022)) + 1)"
proof -
  define e where "e = max \<lfloor>log 2 a\<rfloor> (- 1022)"
  define u :: real where "u = 2 powr (of_int e - 52)"
  have u: "0 < u"
    by (simp add: u_def)
  have a: "a \<noteq> 0" "\<bar>a\<bar> = a"
    using assms by simp_all
  have r: "b64_round a = of_int (round_half_even (a / u)) * u"
    using b64_round_unit[OF a(1)] unfolding a(2) e_def[symmetric] u_def[symmetric] .
  have pu: "2 powr 53 * u = 2 powr (of_int e + 1)"
    unfolding u_def powr_add[symmetric] by (simp add: algebra_simps)
  have "a / u \<le> 2 powr (of_int e + 1) / u"
    using b64_exponent_upper[OF assms] u unfolding e_def by (simp add: divide_right_mono)
  also have "2 powr (of_int e + 1) / u = 2 powr 53"
    using u by (simp add: pu[symmetric])
  also have "\<dots> = of_int (2 ^ 53)"
    by (rule two_powr_53)
  finally have "round_half_even (a / u) \<le> 2 ^ 53"
    using round_half_even_mono[of "a / u" "of_int (2 ^ 53)"]
    by (simp only: round_half_even_of_int)
  then have "(of_int (round_half_even (a / u)) :: real) \<le> of_int (2 ^ 53)"
    by (simp only: of_int_le_iff)
  then have "of_int (round_half_even (a / u)) * u \<le> of_int (2 ^ 53) * u"
    using u by (intro mult_right_mono) simp_all
  also have "of_int (2 ^ 53) * u = 2 powr (of_int e + 1)"
    unfolding two_powr_53[symmetric] by (rule pu)
  finally show ?thesis
    unfolding r e_def .
qed

lemma b64_round_lower:
  assumes "0 < a" and "- 1022 \<le> \<lfloor>log 2 a\<rfloor>"
  shows "2 powr of_int (max \<lfloor>log 2 a\<rfloor> (- 1022)) \<le> b64_round a"
proof -
  define e where "e = max \<lfloor>log 2 a\<rfloor> (- 1022)"
  define u :: real where "u = 2 powr (of_int e - 52)"
  have u: "0 < u"
    by (simp add: u_def)
  have a: "a \<noteq> 0" "\<bar>a\<bar> = a"
    using assms by simp_all
  have r: "b64_round a = of_int (round_half_even (a / u)) * u"
    using b64_round_unit[OF a(1)] unfolding a(2) e_def[symmetric] u_def[symmetric] .
  have pu: "2 powr 52 * u = 2 powr of_int e"
    unfolding u_def powr_add[symmetric] by (simp add: algebra_simps)
  have "2 powr of_int e / u \<le> a / u"
    using b64_exponent_lower[OF assms] u unfolding e_def by (simp add: divide_right_mono)
  moreover have "2 powr of_int e / u = 2 powr 52"
    using u by (simp add: pu[symmetric])
  ultimately have "of_int (2 ^ 52) \<le> a / u"
    unfolding two_powr_52[symmetric] by (simp only: )
  then have "2 ^ 52 \<le> round_half_even (a / u)"
    using round_half_even_mono[of "of_int (2 ^ 52)" "a / u"]
    by (simp only: round_half_even_of_int)
  then have "(of_int (2 ^ 52) :: real) \<le> of_int (round_half_even (a / u))"
    by (simp only: of_int_le_iff)
  then have "of_int (2 ^ 52) * u \<le> of_int (round_half_even (a / u)) * u"
    using u by (intro mult_right_mono) simp_all
  then have "2 powr of_int e \<le> of_int (round_half_even (a / u)) * u"
    unfolding two_powr_52[symmetric] pu .
  then show ?thesis
    unfolding r e_def .
qed

lemma b64_round_nonneg: "0 \<le> a \<Longrightarrow> 0 \<le> b64_round a"
proof -
  assume a: "0 \<le> a"
  have "0 \<le> round_half_even (a / 2 powr (of_int (max \<lfloor>log 2 \<bar>a\<bar>\<rfloor> (- 1022)) - 52))"
    using round_half_even_mono[of "of_int 0" "a / 2 powr (of_int (max \<lfloor>log 2 \<bar>a\<bar>\<rfloor> (- 1022)) - 52)"] a
    by (simp only: round_half_even_of_int) simp
  then show ?thesis
    by (simp add: b64_round_def Let_def)
qed

lemma b64_round_mono_pos:
  assumes "0 < a" and "a \<le> b"
  shows "b64_round a \<le> b64_round b"
proof -
  define ea where "ea = max \<lfloor>log 2 a\<rfloor> (- 1022)"
  define eb where "eb = max \<lfloor>log 2 b\<rfloor> (- 1022)"
  have b: "0 < b"
    using assms by simp
  have "log 2 a \<le> log 2 b"
    using assms by simp
  then have fl: "\<lfloor>log 2 a\<rfloor> \<le> \<lfloor>log 2 b\<rfloor>"
    by (rule floor_mono)
  then have le: "ea \<le> eb"
    by (simp add: ea_def eb_def)
  show ?thesis
  proof (cases "ea = eb")
    case True
    have "round_half_even (a / 2 powr (of_int ea - 52)) \<le> round_half_even (b / 2 powr (of_int ea - 52))"
      using assms(2) by (intro round_half_even_mono divide_right_mono) simp_all
    then have "(of_int (round_half_even (a / 2 powr (of_int ea - 52))) :: real)
        \<le> of_int (round_half_even (b / 2 powr (of_int ea - 52)))"
      by (simp only: of_int_le_iff)
    then have "of_int (round_half_even (a / 2 powr (of_int ea - 52))) * 2 powr (of_int ea - 52)
        \<le> of_int (round_half_even (b / 2 powr (of_int ea - 52))) * (2 powr (of_int ea - 52) :: real)"
      by (intro mult_right_mono) simp_all
    then show ?thesis
      using assms(1) b True by (simp add: b64_round_def Let_def ea_def eb_def)
  next
    case False
    then have lt: "ea + 1 \<le> eb"
      using le by simp
    then have unclamped: "- 1022 \<le> \<lfloor>log 2 b\<rfloor>"
      unfolding ea_def eb_def by linarith
    have "b64_round a \<le> 2 powr (of_int ea + 1)"
      using b64_round_upper[OF assms(1)] by (simp add: ea_def)
    also have "\<dots> \<le> 2 powr of_int eb"
      using lt by (simp del: of_int_add add: of_int_add[symmetric])
    also have "\<dots> \<le> b64_round b"
      using b64_round_lower[OF b unclamped] by (simp add: eb_def)
    finally show ?thesis .
  qed
qed

lemma b64_round_mono: "a \<le> b \<Longrightarrow> b64_round a \<le> b64_round b"
proof -
  assume ab: "a \<le> b"
  consider "0 < a" | "a \<le> 0" "0 \<le> b" | "b < 0"
    using ab by linarith
  then show ?thesis
  proof cases
    case 1
    then show ?thesis
      using ab by (rule b64_round_mono_pos)
  next
    case 2
    have "b64_round a \<le> 0"
      using b64_round_nonneg[of "- a"] 2(1) by (simp add: b64_round_minus)
    then show ?thesis
      using b64_round_nonneg[OF 2(2)] by linarith
  next
    case 3
    have "b64_round (- b) \<le> b64_round (- a)"
      using 3 ab by (intro b64_round_mono_pos) simp_all
    then show ?thesis
      by (simp add: b64_round_minus)
  qed
qed

lemma b64_round_exact:
  assumes "a = of_int m * 2 powr (of_int e - 52)" and "2 ^ 52 \<le> \<bar>m\<bar>" and "\<bar>m\<bar> < 2 ^ 53"
    and "- 1022 \<le> e"
  shows "b64_round a = a"
proof -
  define u :: real where "u = 2 powr (of_int e - 52)"
  have u: "0 < u"
    by (simp add: u_def)
  have a: "a = of_int m * u"
    using assms(1) by (simp add: u_def)
  have abs: "\<bar>a\<bar> = of_int \<bar>m\<bar> * u"
    using u by (simp add: a abs_mult)
  have lo: "2 powr 52 * u = 2 powr of_int e"
    unfolding u_def powr_add[symmetric] by (simp add: algebra_simps)
  have hi: "2 powr 53 * u = 2 powr (of_int e + 1)"
    unfolding u_def powr_add[symmetric] by (simp add: algebra_simps)
  have "(of_int (2 ^ 52) :: real) \<le> of_int \<bar>m\<bar>"
    using assms(2) by (simp only: of_int_le_iff)
  then have "of_int (2 ^ 52) * u \<le> of_int \<bar>m\<bar> * u"
    using u by (intro mult_right_mono) simp_all
  then have 1: "2 powr of_int e \<le> \<bar>a\<bar>"
    unfolding abs two_powr_52[symmetric] lo .
  have "(of_int \<bar>m\<bar> :: real) < of_int (2 ^ 53)"
    using assms(3) by (simp only: of_int_less_iff)
  then have "of_int \<bar>m\<bar> * u < of_int (2 ^ 53) * u"
    using u by (intro mult_strict_right_mono) simp_all
  then have 2: "\<bar>a\<bar> < 2 powr (of_int e + 1)"
    unfolding abs two_powr_53[symmetric] hi .
  have 0: "a \<noteq> 0"
    using 1 by auto
  have "a / u = of_int m"
    using u by (simp add: a)
  then show ?thesis
    using b64_round_eq[OF 0 1 2 assms(4)] unfolding u_def[symmetric]
    by (simp add: round_half_even_of_int a)
qed

lemma binary64_numbers:
  "binary64 0" "binary64 1" "binary64 2" "binary64 (3 / 2)" "binary64 5"
proof -
  show "binary64 0"
    by (simp add: binary64_def b64_round_def)
  show "binary64 1"
    unfolding binary64_def
    by (rule b64_round_exact[where m = "2 ^ 52" and e = 0]) (simp_all add: powr_minus)
  show "binary64 2"
    unfolding binary64_def
    by (rule b64_round_exact[where m = "2 ^ 52" and e = 1]) (simp_all add: powr_minus)
  show "binary64 (3 / 2)"
    unfolding binary64_def
    by (rule b64_round_exact[where m = "3 * 2 ^ 51" and e = 0]) (simp_all add: powr_minus)
  show "binary64 5"
    unfolding binary64_def
    by (rule b64_round_exact[where m = "5 * 2 ^ 50" and e = 2]) (simp_all add: powr_minus)
qed

lemma b64_values:
  "b64_round 0 = 0" "b64_round 1 = 1" "b64_round 2 = 2" "b64_round (3 / 2) = 3 / 2"
  using binary64_numbers by (simp_all add: binary64_def)

text \<open>Below the least normal number the unit of the rounding is \<open>1 / 2 ^ 1074\<close>.\<close>

lemma min_normal_powr: "min_normal = 2 powr (- 1022)"
proof -
  have "(2::real) powr (- 1022) = inverse (2 powr 1022)"
    by (rule powr_minus)
  also have "(2::real) powr 1022 = 2 ^ 1022"
    using powr_realpow[of "2::real" 1022] by simp
  finally show ?thesis
    by (simp only: min_normal_def inverse_eq_divide)
qed

lemma b64_round_subnormal:
  assumes "x \<noteq> 0" and "\<bar>x\<bar> < min_normal"
  shows "b64_round x = of_int (round_half_even (x * 2 ^ 1074)) / 2 ^ 1074"
proof -
  have "log 2 \<bar>x\<bar> < - 1022"
    using assms by (simp add: log_less_iff min_normal_powr)
  then have "\<lfloor>log 2 \<bar>x\<bar>\<rfloor> \<le> - 1022"
    by linarith
  then have e: "max \<lfloor>log 2 \<bar>x\<bar>\<rfloor> (- 1022) = - 1022"
    by (rule max_absorb2)
  have "(2::real) powr (- 1074) = inverse (2 powr 1074)"
    by (rule powr_minus)
  also have "(2::real) powr 1074 = 2 ^ 1074"
    using powr_realpow[of "2::real" 1074] by simp
  finally have u: "2 powr (of_int (- 1022) - 52) = (inverse (2 ^ 1074) :: real)"
    by simp
  show ?thesis
    unfolding b64_round_unit[OF assms(1)] e u
    by (simp only: divide_inverse inverse_inverse_eq)
qed

lemma gradual_underflow_zero:
  assumes "0 \<le> x" and "x \<le> underflow_bound"
  shows "gradual_underflow x = 0"
proof (cases "x = 0")
  case True
  then show ?thesis
    by (simp add: gradual_underflow_def b64_round_def)
next
  case False
  have small: "\<bar>x\<bar> < min_normal"
    using assms by (simp add: underflow_bound_def min_normal_def)
  define y where "y = x * 2 ^ 1074"
  have y: "0 < y" "y \<le> 1 / 2"
    using assms False by (simp_all add: y_def underflow_bound_def field_simps)
  then have "\<lfloor>y\<rfloor> = 0"
    by (simp add: floor_eq_iff)
  then have "round_half_even y = 0"
    using y by (simp add: round_half_even_def Let_def)
  then show ?thesis
    using small b64_round_subnormal[OF False small]
    by (simp add: gradual_underflow_def y_def)
qed

lemma gradual_underflow_pos:
  assumes "underflow_bound < x"
  shows "0 < gradual_underflow x"
proof (cases "\<bar>x\<bar> < min_normal")
  case False
  then show ?thesis
    using assms underflow_bound_pos by (simp add: gradual_underflow_def)
next
  case True
  have x: "0 < x"
    using assms underflow_bound_pos by linarith
  define y where "y = x * 2 ^ 1074"
  have y: "1 / 2 < y"
    using assms by (simp add: y_def underflow_bound_def field_simps)
  have "1 \<le> round_half_even y"
  proof (cases "\<lfloor>y\<rfloor> = 0")
    case True
    then show ?thesis
      using y by (simp add: round_half_even_def Let_def)
  next
    case False
    moreover have "0 \<le> \<lfloor>y\<rfloor>"
      using y by simp
    ultimately show ?thesis
      using round_half_even_floor_le[of y] by linarith
  qed
  then have "0 < (of_int (round_half_even y) :: real) / 2 ^ 1074"
    by simp
  then show ?thesis
    using True x b64_round_subnormal[of x] by (simp add: gradual_underflow_def y_def)
qed

lemma gradual_underflow_nonneg: "0 \<le> x \<Longrightarrow> 0 \<le> gradual_underflow x"
  by (simp add: gradual_underflow_def b64_round_nonneg)

lemma gradual_underflow_normal: "min_normal \<le> \<bar>x\<bar> \<Longrightarrow> gradual_underflow x = x"
  by (simp add: gradual_underflow_def)

lemma min_normal_le_one: "min_normal \<le> 1"
  by (simp add: min_normal_def)

lemma eps_nonneg: "0 \<le> eps"
  by (simp add: eps_def b64_round_nonneg)

lemma gradual_underflow_examples:
  "gradual_underflow 0 = 0" "gradual_underflow 1 = 1" "gradual_underflow 100 = 100"
  "gradual_underflow 8100 = 8100" "gradual_underflow 1000000 = 1000000"
  by (simp_all add: gradual_underflow_def min_normal_def b64_round_def)

subsection \<open>Spatial weights\<close>

lemma np_exp_pos_iff: "0 < np_exp a \<longleftrightarrow> underflow_bound \<le> exp a"
  by (simp add: np_exp_def not_less)

lemma np_square_nonneg: "0 \<le> np_square d"
  by (simp add: np_square_def gradual_underflow_nonneg)



lemma map2_fst_snd: "map2 f (map fst ps) (map snd ps) = map (\<lambda>p. f (fst p) (snd p)) ps"
  by (induction ps) (simp_all add: split_beta)

lemma foldl_np_add_Fin: "foldl np_add (Fin a) (map Fin ws) = Fin (a + sum_list ws)"
  by (induction ws arbitrary: a) (simp_all add: add.assoc)

lemma np_sum_Fin: "np_sum (map Fin ws) = Fin (sum_list ws)"
  by (simp add: np_sum_def foldl_np_add_Fin)

text \<open>The value that the driver holds for the kernel at one receptor.\<close>

lemma kernel_entry:
  assumes "0 < s2"
  shows "np_exp_entry (np_divide (np_scale (- 0.5) (sum_of_squares dx dy)) s2) =
           Fin (if np_square dx + np_square dy < overflow_bound
                then np_exp (- 0.5 * (np_square dx + np_square dy) / s2) else 0)"
proof (cases "np_square dx + np_square dy < overflow_bound")
  case True
  have "- 0.5 * (np_square dx + np_square dy) / s2 \<le> 0"
    using assms np_square_nonneg[of dx] np_square_nonneg[of dy]
    by (simp add: divide_nonpos_pos)
  then have "exp (- 0.5 * (np_square dx + np_square dy) / s2) \<le> 1"
    by simp
  then have "\<not> overflow_bound \<le> exp (- 0.5 * (np_square dx + np_square dy) / s2)"
    using overflow_bound_gt_one by linarith
  then show ?thesis
    using True assms by (simp add: sum_of_squares_def)
next
  case False
  then show ?thesis
    using assms by (simp add: sum_of_squares_def)
qed

lemma py_square_ok:
  "x * x < overflow_bound \<Longrightarrow> py_square x = Inr (gradual_underflow (x * x))"
  by (simp add: py_square_def)

lemma gaussian_psf_weights_gauss:
  assumes "0 < sigma" and "underflow_bound < sigma * sigma" and "sigma * sigma < overflow_bound"
  shows "gaussian_psf_weights px py (map fst pos) (map snd pos) sigma =
           (let ws = map (\<lambda>p. if kernel_positive px py sigma p then kernel px py sigma p else 0) pos
            in Inr (map Fin (if 0 < sum_list ws then map (\<lambda>v. v / sum_list ws) ws else ws)))"
proof -
  define s2 where "s2 = gradual_underflow (sigma * sigma)"
  have s2: "0 < s2"
    unfolding s2_def using assms(2) by (rule gradual_underflow_pos)
  have entry: "np_exp_entry (np_divide (np_scale (- 0.5)
                  (sum_of_squares (fst p - px) (snd p - py))) s2) =
               Fin (if kernel_positive px py sigma p then kernel px py sigma p else 0)" for p
    unfolding kernel_entry[OF s2]
    by (auto simp: kernel_positive_def kernel_def np_exp_def not_less s2_def)
  have w: "map (\<lambda>r. np_exp_entry (np_divide (np_scale (- 0.5) r) s2))
             (map2 sum_of_squares (map (\<lambda>rx. rx - px) (map fst pos))
                (map (\<lambda>ry. ry - py) (map snd pos))) =
           map Fin (map (\<lambda>p. if kernel_positive px py sigma p then kernel px py sigma p else 0) pos)"
  proof (induction pos)
    case Nil
    show ?case by simp
  next
    case (Cons a pos)
    show ?case
      using Cons entry[of a] by simp
  qed
  have d: "map (np_divide_by (Fin s)) (map Fin ws) = map Fin (map (\<lambda>v. v / s) ws)"
    if "s \<noteq> 0" for s ws
    using that by (induction ws) simp_all
  have pos: "\<not> sigma \<le> 0"
    using assms(1) by simp
  show ?thesis
    by (simp only: gaussian_psf_weights_def Let_def py_square_ok[OF assms(3)] sum.case
        if_not_P[OF pos] s2_def[symmetric] w np_sum_Fin np_positive.simps)
      (simp add: d)
qed








text \<open>
  The two bounds on \<open>sigma_um\<close> are needed. The square of \<^verbatim>\<open>sigma_um = 1e-200\<close> underflows
  to \<open>0.0\<close>: at a receptor under the photon the exponent is \<^verbatim>\<open>-0.0 / 0.0\<close>, the weight
  is \<^verbatim>\<open>nan\<close> and so is the sum, and \<^verbatim>\<open>if s > 0\<close> is not taken. The square of
  \<^verbatim>\<open>sigma_um = 1e200\<close> overflows, and Python raises.
\<close>

lemma gaussian_psf_weights_tiny_sigma:
  "gaussian_psf_weights 0 0 [0, 1] [0, 0] (1 / 10 ^ 200) = Inr [NaN, Fin 0]"
proof -
  have s: "sum_of_squares 0 0 = Fin 0" "sum_of_squares 1 0 = Fin 1"
    by (simp_all add: sum_of_squares_def np_square_def gradual_underflow_examples
        overflow_bound_def)
  have z: "gradual_underflow (1 / 10 ^ 200 * (1 / 10 ^ 200)) = 0"
    by (rule gradual_underflow_zero) (simp_all add: underflow_bound_def)
  have o: "\<not> overflow_bound \<le> 1 / 10 ^ 200 * (1 / 10 ^ 200)"
    by (simp add: overflow_bound_def)
  have p: "py_square (1 / 10 ^ 200) = Inr 0"
    by (simp only: py_square_def if_not_P[OF o] z)
  show ?thesis
    by (simp only: gaussian_psf_weights_def Let_def p) (simp add: s np_sum_def)
qed

lemma gaussian_psf_weights_huge_sigma:
  "gaussian_psf_weights 0 0 [0, 1] [0, 0] (10 ^ 200) = Inl OverflowError"
proof -
  have p: "py_square (10 ^ 200) = Inl OverflowError"
    by (simp add: py_square_def overflow_bound_def)
  show ?thesis
    by (simp only: gaussian_psf_weights_def Let_def p) simp
qed

subsection \<open>Loops, and photons that are discarded\<close>

lemma for_each_append:
  "for_each body (as @ bs) s =
     (case for_each body as s of Inl e \<Rightarrow> Inl e | Inr s' \<Rightarrow> for_each body bs s')"
  by (induction as arbitrary: s) (simp_all split: sum.splits)

lemma for_each_skip:
  assumes "\<And>s. body a s = Inr s"
  shows "for_each body (as @ a # bs) s = for_each body (as @ bs) s"
  by (simp add: for_each_append assms split: sum.splits)

lemma global_name_unbound: "global_name ''cone_sensitivity_nm'' v = Inl NameError"
  by (simp add: global_name_def module_names_def)

text \<open>A photon that passes the filters of the cone loop ends the call.\<close>

lemma cone_step_cases:
  "cone_step cp T dt t0 sigma ph L = Inr L \<or> (\<exists>e. cone_step cp T dt t0 sigma ph L = Inl e)"
  by (simp add: cone_step_def global_name_unbound split: sum.splits option.splits)

lemma cone_step_Inr: "cone_step cp T dt t0 sigma ph L = Inr L' \<Longrightarrow> L' = L"
  using cone_step_cases[of cp T dt t0 sigma ph L] by auto

lemma cone_loop_Inr: "for_each (cone_step cp T dt t0 sigma) ps L = Inr L' \<Longrightarrow> L' = L"
  by (induction ps arbitrary: L) (auto split: sum.splits dest: cone_step_Inr)

lemma discarded_time_bin:
  assumes "dt \<noteq> 0" and "discarded T t0 ph" and "binary64 (arrival_time t0 ph)"
  shows "time_bin_index_b64 (Some (arrival_time t0 ph)) t0 dt T = Inr None \<or>
         ph_x ph = None \<or> ph_y ph = None"
proof (cases "t0 + T \<le> arrival_time t0 ph")
  case True
  have "b64_round (t0 + T) \<le> b64_round (arrival_time t0 ph)"
    using True by (rule b64_round_mono)
  then have "b64_round (t0 + T) \<le> arrival_time t0 ph"
    using assms(3) by (simp add: binary64_def)
  then show ?thesis
    by (simp add: time_bin_index_b64_def)
next
  case False
  then show ?thesis
    using assms(2) by (auto simp: discarded_def time_bin_index_b64_def)
qed

lemma cone_step_discarded:
  assumes "dt \<noteq> 0" and "discarded T t0 ph" and "binary64 (arrival_time t0 ph)"
  shows "cone_step cp T dt t0 sigma ph L = Inr L"
  using discarded_time_bin[OF assms] assms(1)
  by (auto simp: cone_step_def arrival_time_def time_bin_index_b64_def split: option.splits)

lemma rod_step_discarded:
  assumes "dt \<noteq> 0" and "discarded T t0 ph" and "binary64 (arrival_time t0 ph)"
  shows "rod_step rx ry T dt t0 sigma ph L = Inr L"
  using discarded_time_bin[OF assms] assms(1)
  by (auto simp: rod_step_def arrival_time_def time_bin_index_b64_def split: option.splits)

text \<open>
  Claim C1. A photon whose arrival time lies outside the window from \<open>t0\<close> to \<open>t0 + T\<close>
  (the end excluded), or that misses a coordinate, contributes nothing: with it or without
  it in the list, at any place, \<open>build_L_series_for_cones\<close> and
  \<open>build_L_series_for_rods\<close> give the same result (the same arrays, or the same
  exception). The arrival time is a binary64 number, as every Python float is; the window
  test of the driver compares it with the rounded sum \<^verbatim>\<open>t0 + T\<close>, and rounding is
  monotone.
\<close>

theorem discarded_photon_no_effect:
  assumes "discarded T t0 ph" and "binary64 (arrival_time t0 ph)"
  shows "build_L_series_for_cones (ps1 @ ph # ps2) cone_positions T dt t0 sigma_um n_cones =
           build_L_series_for_cones (ps1 @ ps2) cone_positions T dt t0 sigma_um n_cones \<and>
         build_L_series_for_rods (ps1 @ ph # ps2) rod_positions T dt t0 sigma_um n_rods =
           build_L_series_for_rods (ps1 @ ps2) rod_positions T dt t0 sigma_um n_rods"
proof (cases "dt = 0")
  case True
  then show ?thesis
    by (simp add: build_L_series_for_cones_def build_L_series_for_rods_def)
next
  case False
  have c: "for_each (cone_step cp T dt t0 sigma_um) (ps1 @ ph # ps2) L =
           for_each (cone_step cp T dt t0 sigma_um) (ps1 @ ps2) L" for cp L
    by (rule for_each_skip) (rule cone_step_discarded[OF False assms])
  have r: "for_each (rod_step rx ry T dt t0 sigma_um) (ps1 @ ph # ps2) Lr =
           for_each (rod_step rx ry T dt t0 sigma_um) (ps1 @ ps2) Lr" for rx ry Lr
    by (rule for_each_skip) (rule rod_step_discarded[OF False assms])
  show ?thesis
    by (simp add: build_L_series_for_cones_def build_L_series_for_rods_def Let_def c r)
qed

subsection \<open>Shapes, keys and the normalisation\<close>


lemma normalize_key_Inr:
  "normalize_key d tkey L = Inr R \<longleftrightarrow> (\<exists>A. L tkey = Some A \<and> R = L(tkey \<mapsto> clip_div d A))"
proof (cases "L tkey")
  case None
  then show ?thesis
    by (simp add: normalize_key_def)
next
  case (Some A)
  have "L(tkey \<mapsto> A) = L"
    using Some by (rule map_upd_triv)
  then show ?thesis
    using Some by (auto simp: normalize_key_def clip_div_def)
qed

lemma normalize_keys_result:
  "for_each (normalize_key d) keys L = Inr R \<Longrightarrow> distinct keys \<Longrightarrow>
   R key = (if key \<in> set keys then map_option (clip_div d) (L key) else L key)"
proof (induction keys arbitrary: L)
  case Nil
  then show ?case by simp
next
  case (Cons k ks)
  from Cons.prems(1) obtain L1 where k: "normalize_key d k L = Inr L1"
    and rest: "for_each (normalize_key d) ks L1 = Inr R"
    by (auto split: sum.splits)
  from k obtain A where A: "L k = Some A" and L1: "L1 = L(k \<mapsto> clip_div d A)"
    by (auto simp: normalize_key_Inr)
  from Cons.IH[OF rest] Cons.prems(2)
  have "R key = (if key \<in> set ks then map_option (clip_div d) (L1 key) else L1 key)"
    by simp
  then show ?case
    using Cons.prems(2) A by (auto simp: L1)
qed

lemma array_size_zero: "array_size A = 0 \<Longrightarrow> row \<in> set A \<Longrightarrow> row = []"
  by (induction A) (auto simp: array_size_def)



lemma clip_div_unit:
  assumes "d \<noteq> 0" and "\<forall>r\<in>set A. all_numbers r" and "row \<in> set (clip_div d A)"
    and "a \<in> set row"
  shows "in_unit_interval a"
proof (cases "array_size A = 0")
  case True
  then have "row = []"
    using assms(3) array_size_zero[OF True] by (simp add: clip_div_def)
  then show ?thesis
    using assms(4) by simp
next
  case False
  then obtain r b where "r \<in> set A" "b \<in> set r" "a = np_clip 0 1 (np_divide b d)"
    using assms(3,4) by (auto simp: clip_div_def)
  moreover from this assms(2) obtain x where "b = Fin x"
    by (auto simp: all_numbers_def)
  ultimately show ?thesis
    using assms(1) by simp
qed

lemma all_numbers_zeros: "r \<in> set (zeros n N) \<Longrightarrow> all_numbers r"
  by (auto simp: zeros_def all_numbers_def)

lemma entries_zeros: "row \<in> set (zeros n N) \<Longrightarrow> a \<in> set row \<Longrightarrow> a = Fin 0"
  by (auto simp: zeros_def)

text \<open>What a returning call of \<open>build_L_series_for_cones\<close> returns: the arrays of zeros,
  those of S, M and L divided and clipped.\<close>

lemma cones_result:
  assumes "build_L_series_for_cones ps cp T dt t0 sigma n1 = Inr R"
  shows "R key = (case cp key of
                    None \<Rightarrow> None
                  | Some pos \<Rightarrow>
                      if key \<in> {''S'', ''M'', ''L''}
                      then Some (clip_div (n1 + eps) (zeros (nat (n_steps_b64 T dt)) (receptor_count pos)))
                      else Some (zeros (nat (n_steps_b64 T dt)) (receptor_count pos)))"
proof -
  let ?L0 = "\<lambda>tkey. case cp tkey of None \<Rightarrow> None
                    | Some pos \<Rightarrow> Some (zeros (nat (n_steps_b64 T dt)) (receptor_count pos))"
  from assms obtain Lf where
    loop: "for_each (cone_step cp T dt t0 sigma) ps ?L0 = Inr Lf"
    and norm: "for_each (normalize_key (n1 + eps)) [''S'', ''M'', ''L''] Lf = Inr R"
    by (auto simp: build_L_series_for_cones_def Let_def split: if_splits sum.splits)
  have "Lf = ?L0"
    using cone_loop_Inr[OF loop] .
  then have "R key = (if key \<in> set [''S'', ''M'', ''L''] then map_option (clip_div (n1 + eps)) (?L0 key)
                      else ?L0 key)"
    using normalize_keys_result[OF norm, of key] by simp
  then show ?thesis
    by (auto split: option.splits)
qed


text \<open>
  The ceiling is taken of the rounded quotient. For the binary64 numbers next to 0.1 and
  0.01 the quotient is a little above 10 and rounds to 10: the arrays have 10 rows, where
  the ceiling of the exact quotient is 11.
\<close>

lemma n_steps_rounded_quotient:
  "n_steps_b64 (3602879701896397 / 2 ^ 55) (5764607523034235 / 2 ^ 59) = 10 \<and>
   \<lceil>(3602879701896397 / 2 ^ 55) / (5764607523034235 / 2 ^ 59) :: real\<rceil> = 11"
proof -
  define q :: real where "q = 57646075230342352 / 5764607523034235"
  have q: "(3602879701896397 / 2 ^ 55) / (5764607523034235 / 2 ^ 59) = q"
    by (simp add: q_def)
  have "b64_round q = of_int (round_half_even (q / 2 powr (of_int 3 - 52))) * 2 powr (of_int 3 - 52)"
    by (rule b64_round_eq) (simp_all add: q_def)
  also have "2 powr (of_int 3 - 52) = (1 / 2 ^ 49 :: real)"
    by (simp add: powr_minus inverse_eq_divide)
  also have "round_half_even (q / (1 / 2 ^ 49)) = 10 * 2 ^ 49"
  proof -
    have "\<lfloor>q / (1 / 2 ^ 49)\<rfloor> = 10 * 2 ^ 49"
      by (simp add: q_def floor_eq_iff)
    moreover have "q / (1 / 2 ^ 49) - of_int (10 * 2 ^ 49) < 1 / 2"
      by (simp add: q_def)
    ultimately show ?thesis
      by (simp only: round_half_even_def Let_def if_True)
  qed
  finally have r: "b64_round q = 10"
    by simp
  have c: "\<lceil>q\<rceil> = 11"
    by (simp add: q_def ceiling_eq_iff)
  show ?thesis
    unfolding n_steps_b64_def q r c by simp
qed

subsection \<open>The range of the light drive\<close>

lemma all_numbers_add:
  assumes "all_numbers r" and "all_numbers v"
  shows "all_numbers (map2 np_add r v)"
  unfolding all_numbers_def
proof
  fix c
  assume "c \<in> set (map2 np_add r v)"
  then obtain a b where ab: "(a, b) \<in> set (zip r v)" and c: "c = np_add a b"
    by auto
  from ab have "a \<in> set r" "b \<in> set v"
    by (auto dest: set_zip_leftD set_zip_rightD)
  then obtain x y where "a = Fin x" "b = Fin y"
    using assms unfolding all_numbers_def by blast
  then show "\<exists>x. c = Fin x"
    by (simp add: c)
qed

lemma np_index_less: "np_index n k = Inr i \<Longrightarrow> i < n"
  by (auto simp: np_index_def split: if_splits)

lemma row_add_numbers:
  assumes "row_add A k v = Inr A'" and "\<forall>r\<in>set A. all_numbers r" and "all_numbers v"
  shows "\<forall>r\<in>set A'. all_numbers r"
proof -
  from assms(1) obtain i where i: "i < length A" and A': "A' = A[i := map2 np_add (A ! i) v]"
    by (auto simp: row_add_def split: sum.splits dest: np_index_less)
  have "all_numbers (map2 np_add (A ! i) v)"
    using assms(2,3) i by (intro all_numbers_add) simp_all
  then show ?thesis
    using assms(2) unfolding A'
    by (auto dest!: set_update_subset_insert[THEN subsetD])
qed

text \<open>Without an underflow of \<^verbatim>\<open>sigma_um**2\<close> every weight is a number.\<close>

lemma gaussian_psf_weights_numbers:
  assumes "gaussian_psf_weights px py (map fst pos) (map snd pos) sigma = Inr w"
    and "sigma \<le> 0 \<or> underflow_bound < sigma * sigma"
  shows "all_numbers w"
proof (cases "sigma \<le> 0")
  case True
  then obtain idx where "w = (replicate (length pos) (Fin 0))[idx := Fin 1]"
    using assms(1) by (auto simp: gaussian_psf_weights_def Let_def split: sum.splits)
  then show ?thesis
    by (auto simp: all_numbers_def dest!: set_update_subset_insert[THEN subsetD])
next
  case False
  then have s: "0 < sigma" "underflow_bound < sigma * sigma"
    using assms(2) by simp_all
  have "sigma * sigma < overflow_bound"
  proof (rule ccontr)
    assume "\<not> sigma * sigma < overflow_bound"
    then have "py_square sigma = Inl OverflowError"
      by (simp add: py_square_def)
    then show False
      using assms(1) False by (simp add: gaussian_psf_weights_def Let_def)
  qed
  from gaussian_psf_weights_gauss[OF s this, of px py pos] assms(1)
  obtain ws where "w = map Fin ws"
    by (auto simp: Let_def)
  then show ?thesis
    by (auto simp: all_numbers_def)
qed

lemma rod_step_numbers:
  assumes "rod_step (map fst pos) (map snd pos) T dt t0 sigma ph Lr = Inr Lr'"
    and "\<forall>r\<in>set Lr. all_numbers r"
    and "sigma \<le> 0 \<or> underflow_bound < sigma * sigma"
  shows "\<forall>r\<in>set Lr'. all_numbers r"
proof (cases "Lr' = Lr")
  case True
  then show ?thesis
    using assms(2) by simp
next
  case False
  then obtain px py k w where
    w: "gaussian_psf_weights px py (map fst pos) (map snd pos) sigma = Inr w"
    and add: "row_add Lr k w = Inr Lr'"
    using assms(1) by (auto simp: rod_step_def split: sum.splits option.splits)
  show ?thesis
    using row_add_numbers[OF add assms(2) gaussian_psf_weights_numbers[OF w assms(3)]] .
qed

lemma rod_loop_numbers:
  "for_each (rod_step (map fst pos) (map snd pos) T dt t0 sigma) ps Lr = Inr Lr' \<Longrightarrow>
   \<forall>r\<in>set Lr. all_numbers r \<Longrightarrow> sigma \<le> 0 \<or> underflow_bound < sigma * sigma \<Longrightarrow>
   \<forall>r\<in>set Lr'. all_numbers r"
proof (induction ps arbitrary: Lr)
  case Nil
  then show ?case by simp
next
  case (Cons p ps)
  from Cons.prems(1) obtain L1 where
    1: "rod_step (map fst pos) (map snd pos) T dt t0 sigma p Lr = Inr L1"
    and 2: "for_each (rod_step (map fst pos) (map snd pos) T dt t0 sigma) ps L1 = Inr Lr'"
    by (auto split: sum.splits)
  show ?case
    using Cons.IH[OF 2 rod_step_numbers[OF 1 Cons.prems(2,3)] Cons.prems(3)] .
qed

lemma clip_divide_unit: "d \<noteq> 0 \<Longrightarrow> in_unit_interval (np_clip 0 1 (np_divide (Fin x) d))"
  by simp

text \<open>
  Claim C2, as amended. When the divisor \<open>photons_per_L1 + eps\<close> is not 0 (so for every
  \<open>photons_per_L1 \<ge> 0\<close>), and \<open>sigma_um\<close> is at most 0 or its square does not underflow to
  \<open>0.0\<close>, every entry of every array that \<open>build_L_series_for_cones\<close> and
  \<open>build_L_series_for_rods\<close> return is a number between 0 and 1.
\<close>

theorem light_drive_in_unit_interval:
  assumes "n_cones + eps \<noteq> 0" and "n_rods + eps \<noteq> 0"
    and "sigma_um \<le> 0 \<or> underflow_bound < sigma_um * sigma_um"
  shows "(build_L_series_for_cones photons cone_positions T dt t0 sigma_um n_cones = Inr R \<longrightarrow>
            (\<forall>tkey A. R tkey = Some A \<longrightarrow> (\<forall>row\<in>set A. \<forall>a\<in>set row. in_unit_interval a))) \<and>
         (build_L_series_for_rods photons rod_positions T dt t0 sigma_um n_rods = Inr Rr \<longrightarrow>
            (\<forall>row\<in>set Rr. \<forall>a\<in>set row. in_unit_interval a))"
proof (intro conjI impI allI ballI)
  fix tkey A row a
  assume b: "build_L_series_for_cones photons cone_positions T dt t0 sigma_um n_cones = Inr R"
    and A: "R tkey = Some A" and row: "row \<in> set A" and a: "a \<in> set row"
  note R = cones_result[OF b, of tkey]
  from A R obtain pos where pos: "cone_positions tkey = Some pos"
    by (auto split: option.splits)
  let ?Z = "zeros (nat (n_steps_b64 T dt)) (receptor_count pos)"
  show "in_unit_interval a"
  proof (cases "tkey \<in> {''S'', ''M'', ''L''}")
    case True
    then have "A = clip_div (n_cones + eps) ?Z"
      using A R pos by simp
    then show ?thesis
      using clip_div_unit[OF assms(1), of ?Z row a] all_numbers_zeros row a by blast
  next
    case False
    then have "A = ?Z"
      using A R pos by simp
    then have "a = Fin 0"
      using row a by (auto dest: entries_zeros)
    then show ?thesis
      by simp
  qed
next
  fix row a
  assume b: "build_L_series_for_rods photons rod_positions T dt t0 sigma_um n_rods = Inr Rr"
    and row: "row \<in> set Rr" and a: "a \<in> set row"
  show "in_unit_interval a"
  proof (cases "receptor_count rod_positions = 0")
    case True
    then have "Rr = zeros (nat (n_steps_b64 T dt)) 0"
      using b by (auto simp: build_L_series_for_rods_def Let_def split: if_splits)
    then have "a = Fin 0"
      using row a by (auto dest: entries_zeros)
    then show ?thesis
      by simp
  next
    case False
    define pos where "pos = (case rod_positions of None \<Rightarrow> [] | Some ps \<Rightarrow> ps)"
    from b False obtain Lr where
      loop: "for_each (rod_step (map fst pos) (map snd pos) T dt t0 sigma_um) photons
               (zeros (nat (n_steps_b64 T dt)) (receptor_count rod_positions)) = Inr Lr"
      and Rr: "Rr = map (map (\<lambda>a. np_clip 0 1 (np_divide a (n_rods + eps)))) Lr"
      by (auto simp: build_L_series_for_rods_def Let_def pos_def split: if_splits sum.splits)
    have num: "\<forall>r\<in>set Lr. all_numbers r"
      using rod_loop_numbers[OF loop _ assms(3)] all_numbers_zeros by blast
    from row a Rr obtain r b where "r \<in> set Lr" "b \<in> set r"
      and ab: "a = np_clip 0 1 (np_divide b (n_rods + eps))"
      by auto
    with num obtain x where "b = Fin x"
      by (auto simp: all_numbers_def)
    then show ?thesis
      using ab clip_divide_unit[OF assms(2)] by simp
  qed
qed

subsection \<open>Runs on concrete inputs\<close>

lemma small_quotients: "\<not> overflow_bound \<le> 2" "\<not> overflow_bound \<le> 1"
  by (simp_all add: overflow_bound_def)

lemma n_steps_examples: "n_steps_b64 2 1 = 2" "n_steps_b64 1 1 = 1"
  by (simp_all add: n_steps_b64_def b64_values)

lemma time_bin_examples:
  "time_bin_index_b64 (Some 1) 0 1 2 = Inr (Some 1)"
  "time_bin_index_b64 (Some (3 / 2)) 0 1 2 = Inr (Some 1)"
  "time_bin_index_b64 (Some 5) 0 1 2 = Inr None"
  "time_bin_index_b64 (Some 0) 0 1 1 = Inr (Some 0)"
  by (simp_all add: time_bin_index_b64_def b64_values)

lemma squares_examples:
  "sum_of_squares 0 0 = Fin 0" "sum_of_squares 1 0 = Fin 1"
  "sum_of_squares (- 10) 0 = Fin 100" "sum_of_squares 90 0 = Fin 8100"
  "sum_of_squares (- 90) 0 = Fin 8100" "sum_of_squares 10 0 = Fin 100"
  by (simp_all add: sum_of_squares_def np_square_def gradual_underflow_examples
      overflow_bound_def)

lemma eps_examples:
  "10 + eps \<noteq> 0" "50 + eps \<noteq> 0" "min (max (1 / (10 + eps)) 0) 1 = 1 / (10 + eps)"
  using eps_nonneg by (simp_all add: field_simps)

lemma nearest_examples:
  "gaussian_psf_weights 10 0 [0, 100] [0, 0] 0 = Inr [Fin 1, Fin 0]"
  "gaussian_psf_weights 90 0 [0, 100] [0, 0] 0 = Inr [Fin 0, Fin 1]"
  "gaussian_psf_weights 0 0 [0] [0] 0 = Inr [Fin 1]"
  by (simp_all add: gaussian_psf_weights_def squares_examples np_argmin_def)

lemma example_rods_run:
  "build_L_series_for_rods
     [Photon 560 (Some 10) (Some 0) (Some 1), Photon 560 (Some 90) (Some 0) (Some (3 / 2))]
     (Some [(0, 0), (100, 0)]) 2 1 0 0 10
   = Inr [[Fin 0, Fin 0], [Fin (1 / (10 + eps)), Fin (1 / (10 + eps))]]"
  by (simp add: build_L_series_for_rods_def small_quotients n_steps_examples rod_step_def
      time_bin_examples nearest_examples receptor_count_def zeros_def row_add_def np_index_def
      eps_examples eval_nat_numeral)

lemma example_cones_run:
  "build_L_series_for_cones
     [Photon 560 None (Some 0) (Some 1), Photon 560 (Some 0) (Some 0) (Some 5)]
     example_cones 2 1 0 10 50 = Inr example_drive"
  by (auto simp: build_L_series_for_cones_def small_quotients n_steps_examples cone_step_def
      time_bin_examples receptor_count_def zeros_def normalize_key_def array_size_def
      example_cones_def example_drive_def eps_examples eval_nat_numeral fun_eq_iff)

text \<open>As the module is written, the first photon that passes the filters of the cone loop
  ends the call: the name \<^verbatim>\<open>cone_sensitivity_nm\<close> is not bound.\<close>

lemma example_cones_name_error:
  "build_L_series_for_cones [Photon 560 (Some 0) (Some 0) (Some 1)] example_cones 2 1 0 10 50
   = Inl NameError"
  by (simp add: build_L_series_for_cones_def small_quotients n_steps_examples cone_step_def
      time_bin_examples global_name_unbound example_cones_def)

text \<open>
  Claim C2 as stated holds for every parameter setting. With
  \<^verbatim>\<open>photons_per_L1 = -1e-12\<close>, the negative of \<open>eps\<close>, the divisor
  \<^verbatim>\<open>photons_per_L1 + 1e-12\<close> is 0, and an array of zeros divided by it is an array of
  \<^verbatim>\<open>nan\<close>, which \<^verbatim>\<open>np.clip\<close> keeps.
\<close>

theorem light_drive_nan:
  "build_L_series_for_rods [] (Some [(0, 0)]) 1 1 0 10 (- eps) = Inr [[NaN]] \<and>
   \<not> in_unit_interval NaN"
  by (simp add: build_L_series_for_rods_def small_quotients n_steps_examples
      receptor_count_def zeros_def)

text \<open>
  The bound on \<open>sigma_um\<close> is needed as well: with \<^verbatim>\<open>sigma_um = 1e-200\<close> and the default
  \<^verbatim>\<open>photons_per_L1 = 10\<close>, a photon on a rod gives that rod the weight \<^verbatim>\<open>nan\<close>, and the
  entry stays \<^verbatim>\<open>nan\<close>.
\<close>

lemma rods_one_photon:
  assumes "gaussian_psf_weights 0 0 [0, 1] [0, 0] sigma = Inr w"
  shows "build_L_series_for_rods [Photon 560 (Some 0) (Some 0) (Some 0)] (Some [(0, 0), (1, 0)])
           1 1 0 sigma 10 =
         Inr [map (\<lambda>a. np_clip 0 1 (np_divide a (10 + eps))) (map2 np_add [Fin 0, Fin 0] w)]"
  by (simp add: build_L_series_for_rods_def small_quotients n_steps_examples rod_step_def
      time_bin_examples assms receptor_count_def zeros_def row_add_def np_index_def)

lemma light_drive_nan_tiny_sigma:
  "build_L_series_for_rods [Photon 560 (Some 0) (Some 0) (Some 0)] (Some [(0, 0), (1, 0)])
     1 1 0 (1 / 10 ^ 200) 10 = Inr [[NaN, Fin 0]]"
  unfolding rods_one_photon[OF gaussian_psf_weights_tiny_sigma] by (simp add: eps_examples)


theorem light_drive_in_unit_interval_witness:
  "(50::real) + eps \<noteq> 0 \<and> (10::real) + eps \<noteq> 0 \<and> ((0::real) \<le> 0 \<or> underflow_bound < 0 * 0) \<and>
   build_L_series_for_cones
     [Photon 560 None (Some 0) (Some 1), Photon 560 (Some 0) (Some 0) (Some 5)]
     example_cones 2 1 0 0 50 = Inr example_drive \<and>
   example_drive ''L'' = Some [[Fin 0], [Fin 0]] \<and>
   in_unit_interval (Fin 0) \<and>
   build_L_series_for_rods
     [Photon 560 (Some 10) (Some 0) (Some 1), Photon 560 (Some 90) (Some 0) (Some (3 / 2))]
     (Some [(0, 0), (100, 0)]) 2 1 0 0 10
   = Inr [[Fin 0, Fin 0], [Fin (1 / (10 + eps)), Fin (1 / (10 + eps))]] \<and>
   in_unit_interval (Fin (1 / (10 + eps)))"
proof -
  have d: "(50::real) + eps \<noteq> 0" "(10::real) + eps \<noteq> 0"
    by (rule eps_examples)+
  have s: "(0::real) \<le> 0 \<or> underflow_bound < 0 * 0"
    by simp
  have run: "build_L_series_for_cones
     [Photon 560 None (Some 0) (Some 1), Photon 560 (Some 0) (Some 0) (Some 5)]
     example_cones 2 1 0 0 50 = Inr example_drive"
    by (auto simp: build_L_series_for_cones_def small_quotients n_steps_examples cone_step_def
      time_bin_examples receptor_count_def zeros_def normalize_key_def array_size_def
      example_cones_def example_drive_def eps_examples eval_nat_numeral fun_eq_iff)
  have L: "example_drive ''L'' = Some [[Fin 0], [Fin 0]]"
    by (simp add: example_drive_def)
  have c: "in_unit_interval (Fin 0)"
    by (rule light_drive_in_unit_interval [OF d s, THEN conjunct1, rule_format,
          OF run L, of "[Fin 0]"]) simp_all
  have r: "in_unit_interval (Fin (1 / (10 + eps)))"
    by (rule light_drive_in_unit_interval [OF d s, THEN conjunct2, rule_format,
          OF example_rods_run, of "[Fin (1 / (10 + eps)), Fin (1 / (10 + eps))]"]) simp_all
  show ?thesis
    using d s run L c example_rods_run r by (intro conjI)
qed

theorem discarded_photon_no_effect_witness:
  "discarded 2 0 (Photon 560 (Some 0) (Some 0) (Some 5)) \<and>
   binary64 (arrival_time 0 (Photon 560 (Some 0) (Some 0) (Some 5))) \<and>
   discarded 2 0 (Photon 560 None (Some 0) (Some 1)) \<and>
   binary64 (arrival_time 0 (Photon 560 None (Some 0) (Some 1))) \<and>
   build_L_series_for_cones
     ([Photon 560 None (Some 0) (Some 1)] @ Photon 560 (Some 0) (Some 0) (Some 5) # [])
     example_cones 2 1 0 10 50 =
   build_L_series_for_cones ([Photon 560 None (Some 0) (Some 1)] @ [])
     example_cones 2 1 0 10 50 \<and>
   build_L_series_for_cones ([Photon 560 None (Some 0) (Some 1)] @ [])
     example_cones 2 1 0 10 50 = Inr example_drive \<and>
   build_L_series_for_rods
     ([Photon 560 (Some 10) (Some 0) (Some 1)] @ Photon 560 None (Some 0) (Some 1) #
      [Photon 560 (Some 90) (Some 0) (Some (3 / 2))])
     (Some [(0, 0), (100, 0)]) 2 1 0 0 10
   = Inr [[Fin 0, Fin 0], [Fin (1 / (10 + eps)), Fin (1 / (10 + eps))]]"
proof -
  have d1: "discarded 2 0 (Photon 560 (Some 0) (Some 0) (Some 5))"
    and d2: "discarded 2 0 (Photon 560 None (Some 0) (Some 1))"
    by (simp_all add: discarded_def arrival_time_def)
  have b1: "binary64 (arrival_time 0 (Photon 560 (Some 0) (Some 0) (Some 5)))"
    and b2: "binary64 (arrival_time 0 (Photon 560 None (Some 0) (Some 1)))"
    by (simp_all add: arrival_time_def binary64_numbers)
  note c = discarded_photon_no_effect [OF d1 b1, THEN conjunct1,
      of "[Photon 560 None (Some 0) (Some 1)]" "[]" example_cones 1 10 50]
  have c': "build_L_series_for_cones ([Photon 560 None (Some 0) (Some 1)] @ [])
     example_cones 2 1 0 10 50 = Inr example_drive"
    unfolding c[symmetric] using example_cones_run by simp
  have r: "build_L_series_for_rods
     ([Photon 560 (Some 10) (Some 0) (Some 1)] @ Photon 560 None (Some 0) (Some 1) #
      [Photon 560 (Some 90) (Some 0) (Some (3 / 2))])
     (Some [(0, 0), (100, 0)]) 2 1 0 0 10
   = Inr [[Fin 0, Fin 0], [Fin (1 / (10 + eps)), Fin (1 / (10 + eps))]]"
    unfolding discarded_photon_no_effect [OF d2 b2, THEN conjunct2]
    using example_rods_run by simp
  show ?thesis
    using d1 b1 d2 b2 c c' r by (intro conjI)
qed

subsection \<open>Hexagonal patch\<close>

lemma sqrt3_bounds: "17 / 10 < sqrt 3" "sqrt 3 < 18 / 10"
proof -
  have "(17 / 10)\<^sup>2 < (3::real)"
    by (simp add: power2_eq_square)
  then show "17 / 10 < sqrt 3"
    by (rule real_less_rsqrt)
  have "(3::real) < (18 / 10)\<^sup>2"
    by (simp add: power2_eq_square)
  then show "sqrt 3 < 18 / 10"
    by (intro real_less_lsqrt) simp_all
qed

lemma grid_example:
  "hex_centres 4 4 4 =
     [(0, 0), (4, 0), (8, 0), (12, 0),
      (2, 2 * sqrt 3), (6, 2 * sqrt 3), (10, 2 * sqrt 3), (14, 2 * sqrt 3),
      (0, 4 * sqrt 3), (4, 4 * sqrt 3), (8, 4 * sqrt 3), (12, 4 * sqrt 3),
      (2, 6 * sqrt 3), (6, 6 * sqrt 3), (10, 6 * sqrt 3), (14, 6 * sqrt 3)]"
  by (simp add: hex_centres_def upto_rec1)

lemma counts_example: "\<lceil>2 * (12 / 5) / (4::real)\<rceil> + 2 = 4" "\<lceil>2 * (12 / 5) / (4 * sqrt 3 / 2)\<rceil> + 2 = 4"
proof -
  show "\<lceil>2 * (12 / 5) / (4::real)\<rceil> + 2 = 4"
    by (simp add: ceiling_eq_iff)
  have "1 < 12 / (5 * sqrt 3)" "12 / (5 * sqrt 3) \<le> 2"
    using sqrt3_bounds by (simp_all add: field_simps)
  then have "\<lceil>12 / (5 * sqrt 3)\<rceil> = 2"
    by (simp add: ceiling_eq_iff)
  then show "\<lceil>2 * (12 / 5) / (4 * sqrt 3 / 2)\<rceil> + 2 = 4"
    by (simp add: field_simps)
qed

lemma make_hex_circular_patch_stages:
  assumes "0 < radius_um" and "pitch_um \<noteq> 0" and "\<not> 0 < jitter_um"
    and "create_hex_grid (\<lceil>2 * radius_um / pitch_um\<rceil> + 2)
           (\<lceil>2 * radius_um / (pitch_um * sqrt 3 / 2)\<rceil> + 2) pitch_um = G"
    and "map (\<lambda>(x, y). (x - mean (map fst G), y)) G = G1"
    and "map (\<lambda>(x, y). (x, y - mean (map snd G1))) G1 = G2"
    and "filter (\<lambda>(x, y). x\<^sup>2 + y\<^sup>2 \<le> radius_um\<^sup>2) G2 = G3"
    and "map (\<lambda>(x, y). (x + fst center, y + snd center)) G3 = G4"
    and "sort_key (\<lambda>(x, y). (arctan2 y x, sqrt (x\<^sup>2 + y\<^sup>2))) G4 = G5"
  shows "make_hex_circular_patch create_hex_grid normal radius_um pitch_um jitter_um seed center =
           Inr \<lparr>patch_radius_um = radius_um, patch_pitch_um = pitch_um,
                patch_jitter_um = jitter_um, patch_seed = seed, patch_center = center,
                patch_coords = G5\<rparr>"
proof -
  have r: "\<not> radius_um \<le> 0"
    using assms(1) by simp
  show ?thesis
    by (simp only: make_hex_circular_patch_def Let_def if_not_P[OF r] if_not_P[OF assms(2)]
        if_not_P[OF assms(3)] assms(4-9))
qed

lemma grid_counts_example:
  "hex_centres (\<lceil>2 * (12 / 5) / 4 :: real\<rceil> + 2) (\<lceil>2 * (12 / 5) / (4 * sqrt 3 / 2)\<rceil> + 2) 4 =
     [(0, 0), (4, 0), (8, 0), (12, 0),
      (2, 2 * sqrt 3), (6, 2 * sqrt 3), (10, 2 * sqrt 3), (14, 2 * sqrt 3),
      (0, 4 * sqrt 3), (4, 4 * sqrt 3), (8, 4 * sqrt 3), (12, 4 * sqrt 3),
      (2, 6 * sqrt 3), (6, 6 * sqrt 3), (10, 6 * sqrt 3), (14, 6 * sqrt 3)]"
  unfolding counts_example by (rule grid_example)

lemma stage1:
  "map (\<lambda>(x, y). (x - mean (map fst
     [(0, 0), (4, 0), (8, 0), (12, 0),
      (2, 2 * sqrt 3), (6, 2 * sqrt 3), (10, 2 * sqrt 3), (14, 2 * sqrt 3),
      (0, 4 * sqrt 3), (4, 4 * sqrt 3), (8, 4 * sqrt 3), (12, 4 * sqrt 3),
      (2, 6 * sqrt 3), (6, 6 * sqrt 3), (10, 6 * sqrt 3), (14, 6 * sqrt 3)]), y))
     [(0, 0), (4, 0), (8, 0), (12, 0),
      (2, 2 * sqrt 3), (6, 2 * sqrt 3), (10, 2 * sqrt 3), (14, 2 * sqrt 3),
      (0, 4 * sqrt 3), (4, 4 * sqrt 3), (8, 4 * sqrt 3), (12, 4 * sqrt 3),
      (2, 6 * sqrt 3), (6, 6 * sqrt 3), (10, 6 * sqrt 3), (14, 6 * sqrt 3)] =
     [(- 7, 0), (- 3, 0), (1, 0), (5, 0),
      (- 5, 2 * sqrt 3), (- 1, 2 * sqrt 3), (3, 2 * sqrt 3), (7, 2 * sqrt 3),
      (- 7, 4 * sqrt 3), (- 3, 4 * sqrt 3), (1, 4 * sqrt 3), (5, 4 * sqrt 3),
      (- 5, 6 * sqrt 3), (- 1, 6 * sqrt 3), (3, 6 * sqrt 3), (7, 6 * sqrt 3)]"
  by (simp add: mean_def)

lemma stage2:
  "map (\<lambda>(x, y). (x, y - mean (map snd
     [(- 7 :: real, 0), (- 3, 0), (1, 0), (5, 0),
      (- 5, 2 * sqrt 3), (- 1, 2 * sqrt 3), (3, 2 * sqrt 3), (7, 2 * sqrt 3),
      (- 7, 4 * sqrt 3), (- 3, 4 * sqrt 3), (1, 4 * sqrt 3), (5, 4 * sqrt 3),
      (- 5, 6 * sqrt 3), (- 1, 6 * sqrt 3), (3, 6 * sqrt 3), (7, 6 * sqrt 3)])))
     [(- 7 :: real, 0), (- 3, 0), (1, 0), (5, 0),
      (- 5, 2 * sqrt 3), (- 1, 2 * sqrt 3), (3, 2 * sqrt 3), (7, 2 * sqrt 3),
      (- 7, 4 * sqrt 3), (- 3, 4 * sqrt 3), (1, 4 * sqrt 3), (5, 4 * sqrt 3),
      (- 5, 6 * sqrt 3), (- 1, 6 * sqrt 3), (3, 6 * sqrt 3), (7, 6 * sqrt 3)] =
     [(- 7 :: real, - 3 * sqrt 3), (- 3, - 3 * sqrt 3), (1, - 3 * sqrt 3), (5, - 3 * sqrt 3),
      (- 5, - sqrt 3), (- 1, - sqrt 3), (3, - sqrt 3), (7, - sqrt 3),
      (- 7, sqrt 3), (- 3, sqrt 3), (1, sqrt 3), (5, sqrt 3),
      (- 5, 3 * sqrt 3), (- 1, 3 * sqrt 3), (3, 3 * sqrt 3), (7, 3 * sqrt 3)]"
  by (simp add: mean_def)

lemma stage3:
  "filter (\<lambda>(x, y). x\<^sup>2 + y\<^sup>2 \<le> (12 / 5)\<^sup>2)
     [(- 7, - 3 * sqrt 3), (- 3, - 3 * sqrt 3), (1, - 3 * sqrt 3), (5, - 3 * sqrt 3),
      (- 5, - sqrt 3), (- 1, - sqrt 3), (3, - sqrt 3), (7, - sqrt 3),
      (- 7, sqrt 3), (- 3, sqrt 3), (1, sqrt 3), (5, sqrt 3),
      (- 5, 3 * sqrt 3), (- 1, 3 * sqrt 3), (3, 3 * sqrt 3), (7, 3 * sqrt 3)] =
     [(- 1, - sqrt 3), (1, sqrt 3)]"
  by (simp add: power_mult_distrib power2_eq_square[of "12 / 5"])

lemma stage4:
  "map (\<lambda>(x, y). (x + fst (0 :: real, 10 :: real), y + snd (0 :: real, 10 :: real)))
     [(- 1, - sqrt 3), (1, sqrt 3)] =
     [(- 1, 10 - sqrt 3), (1, 10 + sqrt 3)]"
  by simp

lemma angle_example: "arctan2 (10 + sqrt 3) 1 < arctan2 (10 - sqrt 3) (- 1)"
proof -
  have "arctan2 (10 + sqrt 3) 1 = arctan (10 + sqrt 3)"
    by (simp add: arctan2_def)
  moreover have "arctan2 (10 - sqrt 3) (- 1) = arctan (- (10 - sqrt 3)) + pi"
    using sqrt3_bounds by (simp add: arctan2_def)
  moreover have "arctan (10 + sqrt 3) < pi / 2"
    by (rule arctan_ubound)
  moreover have "- (pi / 2) < arctan (- (10 - sqrt 3))"
    by (rule arctan_lbound)
  ultimately show ?thesis
    by linarith
qed

lemma stage5:
  "sort_key (\<lambda>(x, y). (arctan2 y x, sqrt (x\<^sup>2 + y\<^sup>2)))
     [(- 1, 10 - sqrt 3), (1, 10 + sqrt 3)] =
     [(1, 10 + sqrt 3), (- 1, 10 - sqrt 3)]"
  using angle_example by (simp add: sort_key_def less_eq_prod_def)

lemma patch_example:
  "make_hex_circular_patch hex_centres no_noise (12 / 5) 4 0 None (0, 10) =
     Inr \<lparr>patch_radius_um = 12 / 5, patch_pitch_um = 4, patch_jitter_um = 0,
          patch_seed = None, patch_center = (0, 10),
          patch_coords = [(1, 10 + sqrt 3), (- 1, 10 - sqrt 3)]\<rparr>"
  by (rule make_hex_circular_patch_stages
      [where create_hex_grid = hex_centres and radius_um = "12 / 5" and pitch_um = 4
         and jitter_um = 0 and center = "(0, 10)",
       OF _ _ _ grid_counts_example stage1 stage2 stage3 stage4 stage5]) simp_all

text \<open>
  Claim C5 as stated measures angle and radius from the patch center. The patch of radius
  2.4 and pitch 4 around the center \<open>(0, 10)\<close> has two points, at 60 and at -120 degrees
  from the center. The sort runs after the translation, on the angles seen from the
  origin (about 85 and 97 degrees), and puts the point at 60 degrees first.
\<close>

theorem patch_not_sorted_about_center:
  "make_hex_circular_patch hex_centres no_noise (12 / 5) 4 0 None (0, 10) =
     Inr \<lparr>patch_radius_um = 12 / 5, patch_pitch_um = 4, patch_jitter_um = 0,
          patch_seed = None, patch_center = (0, 10),
          patch_coords = [(1, 10 + sqrt 3), (- 1, 10 - sqrt 3)]\<rparr> \<and>
   \<not> sorted (map (polar_key (0, 10)) [(1, 10 + sqrt 3), (- 1, 10 - sqrt 3)])"
proof -
  have "arctan2 (- sqrt 3) (- 1) < arctan2 (sqrt 3) 1"
  proof -
    have "arctan2 (- sqrt 3) (- 1) = arctan (sqrt 3) - pi"
      by (simp add: arctan2_def)
    moreover have "arctan2 (sqrt 3) 1 = arctan (sqrt 3)"
      by (simp add: arctan2_def)
    ultimately show ?thesis
      using pi_gt_zero by linarith
  qed
  then have "\<not> sorted (map (polar_key (0, 10)) [(1, 10 + sqrt 3), (- 1, 10 - sqrt 3)])"
    by (simp add: polar_key_def less_eq_prod_def)
  then show ?thesis
    using patch_example by (intro conjI)
qed

lemma polar_key_origin:
  "polar_key (0, 0) = (\<lambda>(x, y). (arctan2 y x, sqrt (x\<^sup>2 + y\<^sup>2)))"
  by (auto simp: polar_key_def fun_eq_iff)

text \<open>
  Claim C5, as amended. The coordinates of every patch that \<open>make_hex_circular_patch\<close>
  returns are sorted by polar angle first and radius second, both measured from the
  origin \<open>(0, 0)\<close> of the translated coordinates. That is the patch center when the
  center is \<open>(0, 0)\<close>, the default.
\<close>

theorem patch_sorted_about_origin:
  assumes "make_hex_circular_patch create_hex_grid normal radius_um pitch_um jitter_um seed center
             = Inr P"
  shows "sorted (map (polar_key (0, 0)) (patch_coords P))"
proof (cases "radius_um \<le> 0")
  case True
  then show ?thesis
    using assms by (auto simp: make_hex_circular_patch_def)
next
  case False
  then obtain cs where "patch_coords P = sort_key (polar_key (0, 0)) cs"
    using assms unfolding polar_key_origin
    by (auto simp: make_hex_circular_patch_def Let_def split: if_splits)
  then show ?thesis
    by simp
qed

theorem patch_sorted_about_origin_witness:
  "make_hex_circular_patch hex_centres no_noise (12 / 5) 4 0 None (0, 10) =
     Inr \<lparr>patch_radius_um = 12 / 5, patch_pitch_um = 4, patch_jitter_um = 0,
          patch_seed = None, patch_center = (0, 10),
          patch_coords = [(1, 10 + sqrt 3), (- 1, 10 - sqrt 3)]\<rparr> \<and>
   sorted (map (polar_key (0, 0)) [(1, 10 + sqrt 3), (- 1, 10 - sqrt 3)])"
  using patch_sorted_about_origin [OF patch_example] patch_example by simp

subsection \<open>The range of the time bin\<close>

text \<open>In exact arithmetic a photon that passes the window test gets a bin inside the
  array: the test \<open>t < t0 + T\<close> bounds the quotient \<open>(t - t0) / dt\<close> by \<open>T / dt\<close>.\<close>

lemma time_bin_index_in_range:
  assumes "0 < T" and "0 < dt" and "time_bin_index (Some t) t0 dt T = Inr (Some k)"
  shows "0 \<le> k \<and> k \<le> \<lceil>T / dt\<rceil> - 1"
proof -
  from assms(2,3) have t: "t0 \<le> t" "t < t0 + T" and k: "k = \<lfloor>(t - t0) / dt\<rfloor>"
    by (auto simp: time_bin_index_def split: if_splits)
  have "0 \<le> (t - t0) / dt"
    using t(1) assms(2) by simp
  then have lo: "0 \<le> k"
    by (simp add: k)
  have "(t - t0) / dt < T / dt"
    using t(2) assms(2) by (simp add: divide_strict_right_mono)
  also have "\<dots> \<le> of_int \<lceil>T / dt\<rceil>"
    by (rule le_of_int_ceiling)
  finally have "\<lfloor>(t - t0) / dt\<rfloor> < \<lceil>T / dt\<rceil>"
    by (simp add: floor_less_iff)
  then show ?thesis
    using lo by (simp add: k)
qed

lemma b64_one: "b64_round 1 = 1"
  by (rule b64_values)

lemma b64_round_tie: "b64_round (1 - 1 / 2 ^ 54) = 1"
proof -
  have "b64_round (1 - 1 / 2 ^ 54) =
      of_int (round_half_even ((1 - 1 / 2 ^ 54) / 2 powr (of_int (- 1) - 52))) * 2 powr (of_int (- 1) - 52)"
    by (rule b64_round_eq) (simp_all add: powr_minus)
  also have "2 powr (of_int (- 1) - 52) = (1 / 2 ^ 53 :: real)"
    by (simp add: powr_minus inverse_eq_divide)
  also have "(1 - 1 / 2 ^ 54) / (1 / 2 ^ 53) = (2 ^ 53 - 1 / 2 :: real)"
    by simp
  also have "round_half_even (2 ^ 53 - 1 / 2) = 2 ^ 53"
  proof -
    have "\<lfloor>2 ^ 53 - 1 / 2 :: real\<rfloor> = 2 ^ 53 - 1"
      by (simp add: floor_eq_iff)
    then show ?thesis
      by (simp add: round_half_even_def Let_def)
  qed
  finally show ?thesis
    by simp
qed

lemma b64_round_below_one: "b64_round (1 - 1 / 2 ^ 53) = 1 - 1 / 2 ^ 53"
  by (rule b64_round_exact[where m = "2 ^ 53 - 1" and e = "- 1"])
    (simp_all add: powr_minus field_simps)

lemma b64_round_tiny: "b64_round (- (1 / 2 ^ 54)) = - (1 / 2 ^ 54)"
  by (rule b64_round_exact[where m = "- (2 ^ 52)" and e = "- 54"])
    (simp_all add: powr_minus field_simps)

text \<open>In binary64 the sum \<^verbatim>\<open>t0 + T\<close> of the test and the difference \<^verbatim>\<open>t - t0\<close> of the index
  are rounded one by one, and the bound is lost.\<close>

lemma rods_first_step_raises:
  assumes "dt \<noteq> 0" and "\<not> overflow_bound \<le> \<bar>T / dt\<bar>" and "n_steps_b64 T dt = 1"
    and "rod_step [0] [0] T dt t0 sigma ph (zeros 1 1) = Inl e"
  shows "build_L_series_for_rods [ph] (Some [(0, 0)]) T dt t0 sigma n = Inl e"
  using assms by (simp add: build_L_series_for_rods_def receptor_count_def)

text \<open>
  Claim C9 says that for \<open>T > 0\<close> and \<open>dt > 0\<close> every retained photon gets a bin
  \<open>k \<le> \<lceil>T / dt\<rceil> - 1\<close>, so that no write leaves the array. Take \<open>T = dt = 1\<close>,
  \<open>t0 = - 2 ^ -54\<close> and a photon at \<open>t = 1 - 2 ^ -53\<close>, all three binary64 numbers.
  The sum \<open>t0 + T = 1 - 2 ^ -54\<close> is a tie and rounds to \<open>1\<close>, so \<open>t < t0 + T\<close> and the
  photon is retained; the difference \<open>t - t0 = 1 - 2 ^ -54\<close> rounds to \<open>1\<close> as well, so
  \<open>k = 1\<close>, while the arrays have \<open>n_steps = 1\<close> row: the write \<^verbatim>\<open>Lr[k] += w_sp\<close> raises
  \<^verbatim>\<open>IndexError\<close>, and so does \<open>build_L_series_for_rods\<close>. In exact arithmetic the same
  photon is in bin 0.
\<close>

theorem time_bin_index_b64_out_of_range:
  "b64_round (1 - 1 / 2 ^ 53) = 1 - 1 / 2 ^ 53 \<and>
   b64_round (- (1 / 2 ^ 54)) = - (1 / 2 ^ 54) \<and>
   b64_round 1 = 1 \<and>
   time_bin_index_b64 (Some (1 - 1 / 2 ^ 53)) (- (1 / 2 ^ 54)) 1 1 = Inr (Some 1) \<and>
   n_steps_b64 1 1 = 1 \<and>
   row_add (zeros (nat (n_steps_b64 1 1)) 1) 1 [Fin 1] = Inl IndexError \<and>
   time_bin_index (Some (1 - 1 / 2 ^ 53)) (- (1 / 2 ^ 54)) 1 1 = Inr (Some 0) \<and>
   build_L_series_for_rods [Photon 560 (Some 0) (Some 0) (Some (1 - 1 / 2 ^ 53))]
     (Some [(0, 0)]) 1 1 (- (1 / 2 ^ 54)) 0 10 = Inl IndexError"
proof -
  have sum: "- (1 / 2 ^ 54) + 1 = (1 - 1 / 2 ^ 54 :: real)"
    by simp
  have diff: "1 - 1 / 2 ^ 53 - - (1 / 2 ^ 54) = (1 - 1 / 2 ^ 54 :: real)"
    by simp
  have s1: "b64_round (- (1 / 2 ^ 54) + 1) = 1"
    unfolding sum by (rule b64_round_tie)
  have d1: "b64_round (1 - 1 / 2 ^ 53 - - (1 / 2 ^ 54)) = 1"
    unfolding diff by (rule b64_round_tie)
  have b: "time_bin_index_b64 (Some (1 - 1 / 2 ^ 53)) (- (1 / 2 ^ 54)) 1 1 = Inr (Some 1)"
    by (simp only: time_bin_index_b64_def option.case s1 d1) simp
  have n: "n_steps_b64 1 1 = 1"
    by (rule n_steps_examples)
  have r: "row_add (zeros (nat (n_steps_b64 1 1)) 1) 1 [Fin 1] = Inl IndexError"
    by (simp add: n row_add_def np_index_def zeros_def)
  have e: "time_bin_index (Some (1 - 1 / 2 ^ 53)) (- (1 / 2 ^ 54)) 1 1 = Inr (Some 0)"
    by (simp add: time_bin_index_def floor_eq_iff)
  have step: "rod_step [0] [0] 1 1 (- (1 / 2 ^ 54)) 0
                (Photon 560 (Some 0) (Some 0) (Some (1 - 1 / 2 ^ 53))) (zeros 1 1) = Inl IndexError"
    by (simp only: rod_step_def photon.sel option.case b sum.case nearest_examples)
      (simp add: row_add_def np_index_def zeros_def)
  have rods: "build_L_series_for_rods [Photon 560 (Some 0) (Some 0) (Some (1 - 1 / 2 ^ 53))]
     (Some [(0, 0)]) 1 1 (- (1 / 2 ^ 54)) 0 10 = Inl IndexError"
  proof (rule rods_first_step_raises[OF _ _ n step])
    show "(1::real) \<noteq> 0"
      by simp
    show "\<not> overflow_bound \<le> \<bar>1 / 1 :: real\<bar>"
      by (simp add: small_quotients)
  qed
  show ?thesis
    using b64_round_below_one b64_round_tiny b64_one b n r e rods by (intro conjI)
qed

end
